theory Spec2Isabelle
  imports Main "HOL-Library.Word"
begin

unbundle bit_operations_syntax

section \<open>float64: the IEEE-754 binary64 values of Go\<close>

text \<open>
  A Go \<open>float64\<close> is modelled by its 64 bits (\<open>math.Float64bits\<close>): bit 63 is the sign,
  bits 52..62 the biased exponent, bits 0..51 the fraction.  The comparisons \<open>==\<close>, \<open><\<close>,
  \<open>>\<close>, \<open>>=\<close> are those of IEEE-754: every comparison with a NaN is false, and the two
  zeros are equal.  \<open>f64_key\<close> maps the non-NaN values monotonically to the integers
  (sign-magnitude order), so that the comparisons become integer comparisons.
\<close>

type_synonym float64 = "64 word"

definition f64_sign :: "float64 \<Rightarrow> bool" where
  "f64_sign x = (2 ^ 63 \<le> uint x)"

definition f64_abs :: "float64 \<Rightarrow> int" where
  "f64_abs x = uint x mod 2 ^ 63"

definition f64_exp :: "float64 \<Rightarrow> int" where
  "f64_exp x = f64_abs x div 2 ^ 52"

definition f64_frac :: "float64 \<Rightarrow> int" where
  "f64_frac x = uint x mod 2 ^ 52"

definition IsNaN :: "float64 \<Rightarrow> bool" where
  "IsNaN x = (2047 * 2 ^ 52 < f64_abs x)"

definition f64_is_inf :: "float64 \<Rightarrow> bool" where
  "f64_is_inf x = (f64_abs x = 2047 * 2 ^ 52)"

definition f64_key :: "float64 \<Rightarrow> int" where
  "f64_key x = (if f64_sign x then - f64_abs x else f64_abs x)"

definition feq :: "float64 \<Rightarrow> float64 \<Rightarrow> bool" where
  "feq x y = (\<not> IsNaN x \<and> \<not> IsNaN y \<and> f64_key x = f64_key y)"

definition flt :: "float64 \<Rightarrow> float64 \<Rightarrow> bool" where
  "flt x y = (\<not> IsNaN x \<and> \<not> IsNaN y \<and> f64_key x < f64_key y)"

definition fgt :: "float64 \<Rightarrow> float64 \<Rightarrow> bool" where
  "fgt x y = flt y x"

definition fge :: "float64 \<Rightarrow> float64 \<Rightarrow> bool" where
  "fge x y = (\<not> IsNaN x \<and> \<not> IsNaN y \<and> f64_key y \<le> f64_key x)"

text \<open>
  \<open>math.NaN()\<close>, \<open>math.Inf(sign)\<close>, \<open>math.Copysign\<close> and \<open>math.Nextafter\<close> of Go's
  standard library, case by case as the library writes them.
\<close>

definition NaN :: float64 where
  "NaN = 0x7FF8000000000001"

definition math_Inf :: "int \<Rightarrow> float64" where
  "math_Inf sign = (if 0 \<le> sign then 0x7FF0000000000000 else 0xFFF0000000000000)"

definition Copysign :: "float64 \<Rightarrow> float64 \<Rightarrow> float64" where
  "Copysign f sign = (f AND NOT 0x8000000000000000) OR (sign AND 0x8000000000000000)"

definition Nextafter :: "float64 \<Rightarrow> float64 \<Rightarrow> float64" where
  "Nextafter x y =
     (if IsNaN x \<or> IsNaN y then NaN
      else if feq x y then x
      else if feq x 0 then Copysign 1 y
      else if fgt y x = fgt x 0 then x + 1
      else x - 1)"

text \<open>
  Subtraction and division, rounded to nearest, ties to even.  A finite value is
  \<open>\<plusminus> f64_mant x * 2 ^ f64_quantum x\<close>; the exact difference (or the quotient with a sticky
  bit) is rounded by \<open>f64_round\<close> to 53 significant bits, or to a multiple of \<open>2 ^ -1074\<close>
  in the subnormal range, and overflows to an infinity.
\<close>

function bit_length :: "int \<Rightarrow> nat" where
  "bit_length n = (if n \<le> 0 then 0 else Suc (bit_length (n div 2)))"
  by pat_completeness auto
termination
  by (relation "measure nat") auto

declare bit_length.simps [simp del]

definition f64_mant :: "float64 \<Rightarrow> int" where
  "f64_mant x = (if f64_exp x = 0 then f64_frac x else 2 ^ 52 + f64_frac x)"

definition f64_quantum :: "float64 \<Rightarrow> int" where
  "f64_quantum x = max (f64_exp x) 1 - 1075"

definition f64_pack :: "bool \<Rightarrow> int \<Rightarrow> float64" where
  "f64_pack s a = word_of_int ((if s then 2 ^ 63 else 0) + min a (2047 * 2 ^ 52))"

definition f64_round :: "bool \<Rightarrow> int \<Rightarrow> int \<Rightarrow> float64" where
  "f64_round s m e =
     (let q = max (int (bit_length m) + e - 53) (- 1074);
          k = nat (q - e);
          m0 = (if q \<le> e then m * 2 ^ nat (e - q) else m div 2 ^ k);
          r = (if q \<le> e then 0 else m mod 2 ^ k);
          h = (if q \<le> e then 1 else 2 ^ (k - 1));
          m1 = (if h < r \<or> (r = h \<and> odd m0) then m0 + 1 else m0)
      in f64_pack s ((q + 1074) * 2 ^ 52 + m1))"

definition fsub :: "float64 \<Rightarrow> float64 \<Rightarrow> float64" where
  "fsub x y =
     (if IsNaN x \<or> IsNaN y then NaN
      else if f64_is_inf x then (if f64_is_inf y \<and> f64_sign x = f64_sign y then NaN else x)
      else if f64_is_inf y then f64_pack (\<not> f64_sign y) (2047 * 2 ^ 52)
      else
        let e = min (f64_quantum x) (f64_quantum y);
            a = (if f64_sign x then - 1 else 1) * f64_mant x * 2 ^ nat (f64_quantum x - e);
            b = (if f64_sign y then - 1 else 1) * f64_mant y * 2 ^ nat (f64_quantum y - e);
            d = a - b
        in if d = 0 then f64_pack (f64_sign x \<and> \<not> f64_sign y) 0
           else f64_round (d < 0) \<bar>d\<bar> e)"

definition fdiv :: "float64 \<Rightarrow> float64 \<Rightarrow> float64" where
  "fdiv x y =
     (let s = (f64_sign x \<noteq> f64_sign y) in
      if IsNaN x \<or> IsNaN y then NaN
      else if f64_is_inf x then (if f64_is_inf y then NaN else f64_pack s (2047 * 2 ^ 52))
      else if f64_is_inf y then f64_pack s 0
      else if f64_abs y = 0 then (if f64_abs x = 0 then NaN else f64_pack s (2047 * 2 ^ 52))
      else if f64_abs x = 0 then f64_pack s 0
      else
        let n = f64_mant x * 2 ^ 128;
            q = n div f64_mant y;
            r = n mod f64_mant y
        in f64_round s (2 * q + (if r = 0 then 0 else 1)) (f64_quantum x - f64_quantum y - 129))"

text \<open>The float64 constants that the examples below use, by their bit patterns.\<close>

definition f_0 :: float64 where "f_0 = 0x0000000000000000"
definition f_1 :: float64 where "f_1 = 0x3FF0000000000000"
definition f_1_next :: float64 where "f_1_next = 0x3FF0000000000001"
definition f_1_next2 :: float64 where "f_1_next2 = 0x3FF0000000000002"
definition f_2 :: float64 where "f_2 = 0x4000000000000000"
definition f_3 :: float64 where "f_3 = 0x4008000000000000"
definition f_4 :: float64 where "f_4 = 0x4010000000000000"
definition f_5 :: float64 where "f_5 = 0x4014000000000000"
definition f_6 :: float64 where "f_6 = 0x4018000000000000"

section \<open>Point and Polygon\<close>

record Point =
  lat :: float64
  lng :: float64

definition NewPoint :: "float64 \<Rightarrow> float64 \<Rightarrow> Point" where
  "NewPoint la ln = \<lparr>lat = la, lng = ln\<rparr>"

text \<open>
  The containment routines only read the polygon's slice, so for them a Polygon is the
  list of the slice's elements.  The slice header and its backing array appear in the
  section on \<open>Add\<close>, where the sharing matters.
\<close>

record Polygon =
  points :: "Point list"

definition NewPolygon :: "Point list \<Rightarrow> Polygon" where
  "NewPolygon ps = \<lparr>points = ps\<rparr>"

definition Points :: "Polygon \<Rightarrow> Point list" where
  "Points p = points p"

definition IsClosed :: "Polygon \<Rightarrow> bool" where
  "IsClosed p = (if length (points p) < 3 then False else True)"

section \<open>The edge test\<close>

text \<open>
  Both versions of \<open>intersectsWithRaycast\<close> first order the edge by latitude, and both
  contain the same latitude-span and longitude-band checks, which either return a
  boolean or fall through to the code after them.
\<close>

datatype verdict = Return bool | Fallthrough

definition order_edge :: "Point \<Rightarrow> Point \<Rightarrow> Point \<times> Point" where
  "order_edge start endp = (if fgt (lat start) (lat endp) then (endp, start) else (start, endp))"

definition band_checks :: "Point \<Rightarrow> Point \<Rightarrow> Point \<Rightarrow> verdict" where
  "band_checks point start endp =
     (if flt (lat point) (lat start) \<or> fgt (lat point) (lat endp) then Return False
      else if fgt (lng start) (lng endp) then
        (if fgt (lng point) (lng start) then Return False
         else if flt (lng point) (lng endp) then Return True
         else Fallthrough)
      else
        (if fgt (lng point) (lng endp) then Return False
         else if flt (lng point) (lng start) then Return True
         else Fallthrough))"

text \<open>The two divisions and the final comparison \<open>raySlope >= diagSlope\<close>.\<close>

definition raySlope :: "Point \<Rightarrow> Point \<Rightarrow> float64" where
  "raySlope point start = fdiv (fsub (lat point) (lat start)) (fsub (lng point) (lng start))"

definition diagSlope :: "Point \<Rightarrow> Point \<Rightarrow> float64" where
  "diagSlope start endp = fdiv (fsub (lat endp) (lat start)) (fsub (lng endp) (lng start))"

definition slope_test :: "Point \<Rightarrow> Point \<Rightarrow> Point \<Rightarrow> bool" where
  "slope_test point start endp = fge (raySlope point start) (diagSlope start endp)"

subsection \<open>src/unnamed/part_001\<close>

definition intersectsWithRaycast_part001 :: "Point \<Rightarrow> Point \<Rightarrow> Point \<Rightarrow> bool" where
  "intersectsWithRaycast_part001 point start endp =
     (case order_edge start endp of (start, endp) \<Rightarrow>
        (case band_checks point start endp of
           Return b \<Rightarrow> b
         | Fallthrough \<Rightarrow> slope_test point start endp))"

text \<open>
  The two inner loops of \<open>Contains\<close> replace a coordinate by \<open>Nextafter\<close> towards
  \<open>+Inf\<close> while it equals the vertex's.  A loop that never exits has the value \<open>None\<close>.
\<close>

partial_function (option) shift_lat :: "Point \<Rightarrow> Point \<Rightarrow> Point option" where
  "shift_lat point v =
     (if feq (lat point) (lat v)
      then shift_lat (NewPoint (Nextafter (lat point) (math_Inf 1)) (lng point)) v
      else Some point)"

partial_function (option) shift_lng :: "Point \<Rightarrow> Point \<Rightarrow> Point option" where
  "shift_lng point v =
     (if feq (lng point) (lng v)
      then shift_lng (NewPoint (lat point) (Nextafter (lng point) (math_Inf 1))) v
      else Some point)"

declare shift_lat.simps [code] shift_lng.simps [code]

fun perturb :: "Point list \<Rightarrow> Point \<Rightarrow> Point option" where
  "perturb [] point = Some point"
| "perturb (v # vs) point =
     (case shift_lat point v of
        None \<Rightarrow> None
      | Some point1 \<Rightarrow>
          (case shift_lng point1 v of
             None \<Rightarrow> None
           | Some point2 \<Rightarrow> perturb vs point2))"

definition edge_parity_part001 :: "Point list \<Rightarrow> Point \<Rightarrow> bool" where
  "edge_parity_part001 ps point =
     fold (\<lambda>i contains.
             if intersectsWithRaycast_part001 point (ps ! (i - 1)) (ps ! i)
             then \<not> contains else contains)
          [1..<length ps]
          (intersectsWithRaycast_part001 point (ps ! (length ps - 1)) (ps ! 0))"

definition Contains_part001 :: "Polygon \<Rightarrow> Point \<Rightarrow> bool option" where
  "Contains_part001 p point =
     (if \<not> IsClosed p then Some False
      else case perturb (points p) point of
             None \<Rightarrow> None
           | Some point \<Rightarrow> Some (edge_parity_part001 (points p) point))"

subsection \<open>src/polygon.go\<close>

text \<open>The per-edge loop that moves the query's latitude off both endpoints' latitudes.\<close>

partial_function (option) shift_off_edge :: "Point \<Rightarrow> Point \<Rightarrow> Point \<Rightarrow> Point option" where
  "shift_off_edge point start endp =
     (if feq (lat point) (lat start) \<or> feq (lat point) (lat endp)
      then shift_off_edge (NewPoint (Nextafter (lat point) (math_Inf 1)) (lng point)) start endp
      else Some point)"

declare shift_off_edge.simps [code]

definition intersectsWithRaycast :: "Point \<Rightarrow> Point \<Rightarrow> Point \<Rightarrow> bool option" where
  "intersectsWithRaycast point start endp =
     (case order_edge start endp of (start, endp) \<Rightarrow>
        (case shift_off_edge point start endp of
           None \<Rightarrow> None
         | Some point \<Rightarrow>
             Some (case band_checks point start endp of
                     Return b \<Rightarrow> b
                   | Fallthrough \<Rightarrow>
                       if feq (lng point) (lng start) then False
                       else slope_test point start endp)))"

fun edge_loop :: "Point list \<Rightarrow> Point \<Rightarrow> nat list \<Rightarrow> bool \<Rightarrow> bool option" where
  "edge_loop ps point [] contains = Some contains"
| "edge_loop ps point (i # is) contains =
     (case intersectsWithRaycast point (ps ! (i - 1)) (ps ! i) of
        None \<Rightarrow> None
      | Some b \<Rightarrow> edge_loop ps point is (if b then \<not> contains else contains))"

definition Contains :: "Polygon \<Rightarrow> Point \<Rightarrow> bool option" where
  "Contains p point =
     (if \<not> IsClosed p then Some False
      else if list_ex (\<lambda>v. feq (lat v) (lat point) \<and> feq (lng v) (lng point)) (points p)
      then Some True
      else case intersectsWithRaycast point (points p ! (length (points p) - 1)) (points p ! 0) of
             None \<Rightarrow> None
           | Some contains \<Rightarrow> edge_loop (points p) point [1..<length (points p)] contains)"

section \<open>Add: the slice and its backing array\<close>

text \<open>
  \<open>Add\<close> is \<open>p.points = append(p.points, point); return p\<close> on a receiver passed by
  value.  A Go slice is a header (backing array, offset of the first element, length,
  capacity); \<open>append\<close> writes in place into the backing array when the capacity allows
  it and otherwise copies the elements into a newly allocated array.  The memory maps
  the identity of each backing array to its cells.  How much a full slice grows is the
  Go runtime's choice and is the parameter \<open>grow\<close>.
\<close>

record slice =
  sl_array :: nat
  sl_offset :: nat
  sl_len :: nat
  sl_cap :: nat

record memory =
  arrays :: "nat \<Rightarrow> Point list"
  fresh :: nat

definition slice_elems :: "memory \<Rightarrow> slice \<Rightarrow> Point list" where
  "slice_elems m s = take (sl_len s) (drop (sl_offset s) (arrays m (sl_array s)))"

definition slice_ok :: "memory \<Rightarrow> slice \<Rightarrow> bool" where
  "slice_ok m s =
     (sl_array s < fresh m \<and> sl_len s \<le> sl_cap s
      \<and> sl_offset s + sl_cap s \<le> length (arrays m (sl_array s)))"

definition go_append :: "(nat \<Rightarrow> nat) \<Rightarrow> memory \<Rightarrow> slice \<Rightarrow> Point \<Rightarrow> memory \<times> slice" where
  "go_append grow m s x =
     (if sl_len s < sl_cap s then
        (m\<lparr>arrays := (arrays m)
               (sl_array s := (arrays m (sl_array s))[sl_offset s + sl_len s := x])\<rparr>,
         s\<lparr>sl_len := sl_len s + 1\<rparr>)
      else
        (m\<lparr>arrays := (arrays m)
               (fresh m := slice_elems m s @ x #
                  replicate (max (sl_len s + 1) (grow (sl_cap s)) - (sl_len s + 1))
                    (NewPoint 0 0)),
           fresh := fresh m + 1\<rparr>,
         \<lparr>sl_array = fresh m, sl_offset = 0, sl_len = sl_len s + 1,
          sl_cap = max (sl_len s + 1) (grow (sl_cap s))\<rparr>))"

text \<open>A Polygon value in memory: the struct with its one field, the slice header.\<close>

record Polygon_mem =
  points_hdr :: slice

definition Points_mem :: "memory \<Rightarrow> Polygon_mem \<Rightarrow> Point list" where
  "Points_mem m p = slice_elems m (points_hdr p)"

definition Add :: "(nat \<Rightarrow> nat) \<Rightarrow> memory \<Rightarrow> Polygon_mem \<Rightarrow> Point \<Rightarrow> memory \<times> Polygon_mem" where
  "Add grow m p point =
     (case go_append grow m (points_hdr p) point of
        (m', s) \<Rightarrow> (m', p\<lparr>points_hdr := s\<rparr>))"

text \<open>
  For the examples: the empty memory, the zero Polygon \<open>Polygon{}\<close> (a nil slice), and
  the doubling of small capacities.
\<close>

definition empty_memory :: memory where
  "empty_memory = \<lparr>arrays = (\<lambda>a. []), fresh = 1\<rparr>"

definition zero_Polygon :: Polygon_mem where
  "zero_Polygon = \<lparr>points_hdr = \<lparr>sl_array = 0, sl_offset = 0, sl_len = 0, sl_cap = 0\<rparr>\<rparr>"

definition double_cap :: "nat \<Rightarrow> nat" where
  "double_cap c = 2 * c"

section \<open>The codecs of Point\<close>

type_synonym byte = "8 word"

datatype error = EOF | ErrUnexpectedEOF | Errorf string error | SyntaxError string

text \<open>
  \<open>binary.LittleEndian.PutUint64\<close> and \<open>Uint64\<close>, and \<open>binary.Write\<close> and
  \<open>binary.Read\<close> of one float64: \<open>Write\<close> appends the 8 bytes to the buffer (a
  \<open>bytes.Buffer\<close> takes every write), \<open>Read\<close> takes 8 bytes off the reader or fails
  with \<open>io.EOF\<close> (nothing left) or \<open>io.ErrUnexpectedEOF\<close> (fewer than 8 left).
\<close>

definition PutUint64 :: "64 word \<Rightarrow> byte list" where
  "PutUint64 v =
     [ucast v, ucast (drop_bit 8 v), ucast (drop_bit 16 v), ucast (drop_bit 24 v),
      ucast (drop_bit 32 v), ucast (drop_bit 40 v), ucast (drop_bit 48 v),
      ucast (drop_bit 56 v)]"

definition Uint64 :: "byte list \<Rightarrow> 64 word" where
  "Uint64 b =
     ucast (b ! 0) OR push_bit 8 (ucast (b ! 1)) OR push_bit 16 (ucast (b ! 2))
     OR push_bit 24 (ucast (b ! 3)) OR push_bit 32 (ucast (b ! 4))
     OR push_bit 40 (ucast (b ! 5)) OR push_bit 48 (ucast (b ! 6))
     OR push_bit 56 (ucast (b ! 7))"

definition binary_Write :: "byte list \<Rightarrow> float64 \<Rightarrow> error option \<times> byte list" where
  "binary_Write buf v = (None, buf @ PutUint64 v)"

definition binary_Read :: "byte list \<Rightarrow> error + float64 \<times> byte list" where
  "binary_Read r =
     (if r = [] then Inl EOF
      else if length r < 8 then Inl ErrUnexpectedEOF
      else Inr (Uint64 (take 8 r), drop 8 r))"

definition MarshalBinary :: "Point \<Rightarrow> error + byte list" where
  "MarshalBinary p =
     (case binary_Write [] (lat p) of
        (Some err, buf) \<Rightarrow> Inl (Errorf ''unable to encode lat'' err)
      | (None, buf) \<Rightarrow>
          (case binary_Write buf (lng p) of
             (Some err, buf) \<Rightarrow> Inl (Errorf ''unable to encode lng'' err)
           | (None, buf) \<Rightarrow> Inr buf))"

text \<open>
  The decoders assign to the receiver through a pointer: they return the error (if any)
  and the receiver's new value.
\<close>

definition UnmarshalBinary :: "Point \<Rightarrow> byte list \<Rightarrow> error option \<times> Point" where
  "UnmarshalBinary p data =
     (case binary_Read data of
        Inl err \<Rightarrow> (Some (Errorf ''binary.Read failed'' err), p)
      | Inr (la, buf) \<Rightarrow>
          (case binary_Read buf of
             Inl err \<Rightarrow> (Some (Errorf ''binary.Read failed'' err), p)
           | Inr (ln, buf) \<Rightarrow> (None, p\<lparr>lat := la, lng := ln\<rparr>)))"

text \<open>
  \<open>UnmarshalJSON\<close> hands the text to \<open>encoding/json\<close>, which fills a
  \<open>map[string]float64\<close> or fails; the decoder is the parameter \<open>decode\<close>.  Indexing a Go
  map at a key it does not hold yields the zero value.
\<close>

definition map_index :: "(string \<rightharpoonup> float64) \<Rightarrow> string \<Rightarrow> float64" where
  "map_index values k = (case values k of None \<Rightarrow> 0 | Some v \<Rightarrow> v)"

definition UnmarshalJSON ::
  "(byte list \<Rightarrow> error + (string \<rightharpoonup> float64)) \<Rightarrow> Point \<Rightarrow> byte list \<Rightarrow> error option \<times> Point" where
  "UnmarshalJSON decode p data =
     (case decode data of
        Inl err \<Rightarrow> (Some err, p)
      | Inr values \<Rightarrow> (None, NewPoint (map_index values ''lat'') (map_index values ''lng'')))"

text \<open>
  The text \<open>{"lng":2}\<close> and a decoder that does on it what \<open>encoding/json\<close> does: the
  object has the one member \<open>lng\<close>, so the map holds that one key.
\<close>

definition lng_only_text :: "byte list" where
  "lng_only_text = [0x7B, 0x22, 0x6C, 0x6E, 0x67, 0x22, 0x3A, 0x32, 0x7D]"

definition lng_only_decoder :: "byte list \<Rightarrow> error + (string \<rightharpoonup> float64)" where
  "lng_only_decoder data =
     (if data = lng_only_text then Inr [''lng'' \<mapsto> f_2] else Inl (SyntaxError ''unexpected text''))"

section \<open>Example polygons\<close>

text \<open>The square of the tests, and the unit square of \<open>TestPolygonSimple\<close>.\<close>

definition square :: Polygon where
  "square = NewPolygon [NewPoint f_0 f_0, NewPoint f_2 f_0, NewPoint f_2 f_2,
                        NewPoint f_0 f_2, NewPoint f_0 f_0]"

definition unit_square :: Polygon where
  "unit_square = NewPolygon [NewPoint f_0 f_0, NewPoint f_0 f_1, NewPoint f_1 f_1,
                             NewPoint f_1 f_0, NewPoint f_0 f_0]"

text \<open>
  Polygons with two coordinates one unit in the last place apart (\<open>f_1_next\<close> is
  \<open>Nextafter 1 +Inf\<close>), a triangle with an apex at longitude 1, and a triangle with a
  vertex at latitude NaN and one with a vertex at latitude \<open>+Inf\<close>; further down, a
  triangle with two longitudes one unit in the last place apart and one with a vertex at
  longitude NaN.
\<close>

definition adjacent_lng :: "Point list" where
  "adjacent_lng = [NewPoint f_0 f_1_next, NewPoint f_2 f_1, NewPoint f_2 f_5]"

definition adjacent_vertex :: "Point list" where
  "adjacent_vertex = [NewPoint f_1_next f_1_next, NewPoint f_1 f_1, NewPoint f_2 f_5]"

definition adjacent_lat :: "Point list" where
  "adjacent_lat = [NewPoint f_1 f_2, NewPoint f_1_next f_1, NewPoint f_3 f_1]"

definition apex_triangle :: "Point list" where
  "apex_triangle = [NewPoint f_0 f_1, NewPoint f_4 f_0, NewPoint f_4 f_2]"

definition nan_triangle :: "Point list" where
  "nan_triangle = [NewPoint NaN f_4, NewPoint f_4 f_0, NewPoint f_6 f_2]"

definition inf_triangle :: "Point list" where
  "inf_triangle = [NewPoint (math_Inf 1) f_0, NewPoint f_0 f_1, NewPoint f_1 f_0]"

definition lng_adjacent :: "Point list" where
  "lng_adjacent = [NewPoint f_2 f_1_next, NewPoint f_4 f_1, NewPoint f_0 f_0]"

definition nan_lng_triangle :: "Point list" where
  "nan_lng_triangle = [NewPoint f_4 NaN, NewPoint f_2 f_4, NewPoint f_4 f_4]"

section \<open>The perturbation pass on one coordinate\<close>

text \<open>
  \<open>one_ulp_above u v\<close>: \<open>u\<close> is the double that follows \<open>v\<close>, the value a
  coordinate equal to \<open>v\<close> is moved to.  \<open>nudge x cs\<close> is what the perturbation pass
  does to one coordinate \<open>x\<close> of the query along the vertices' coordinates \<open>cs\<close>: at
  most one step at each vertex, and no result where the loop at a vertex never exits.
\<close>

definition one_ulp_above :: "float64 \<Rightarrow> float64 \<Rightarrow> bool" where
  "one_ulp_above u v = (v \<noteq> math_Inf 1 \<and> feq u (Nextafter v (math_Inf 1)))"

fun nudge :: "float64 \<Rightarrow> float64 list \<Rightarrow> float64 option" where
  "nudge x [] = Some x"
| "nudge x (c # cs) =
     (if \<not> feq x c then nudge x cs
      else if c = math_Inf 1 then None
      else nudge (Nextafter x (math_Inf 1)) cs)"

section \<open>Edges as pairs\<close>

text \<open>One step of the parity loop, on an edge given as a pair of endpoints.\<close>

definition flip_if :: "('a \<Rightarrow> 'a \<Rightarrow> bool) \<Rightarrow> 'a \<times> 'a \<Rightarrow> bool \<Rightarrow> bool" where
  "flip_if g e c = (if g (fst e) (snd e) then \<not> c else c)"

section \<open>Facts about float64\<close>

text \<open>The constants and the arithmetic on them: 3 - 1 = 2, 4 / 2 = 2, 1 / 3, 1 / 0, 0 / 0.\<close>

lemma f64_examples:
  "Nextafter f_1 (math_Inf 1) = f_1_next"
  "Nextafter f_1_next (math_Inf 1) = f_1_next2"
  "fsub f_3 f_1 = f_2"
  "fsub f_1_next f_1 = 0x3CB0000000000000"
  "fdiv f_4 f_2 = f_2"
  "fdiv f_1 f_3 = 0x3FD5555555555555"
  "fdiv f_1 f_0 = math_Inf 1"
  "IsNaN (fdiv f_0 f_0)"
  "flt f_4 f_5 \<and> fgt f_6 f_5 \<and> feq f_0 0x8000000000000000 \<and> \<not> feq NaN NaN"
  by code_simp+

lemma feq_sym: "feq x y = feq y x"
  by (auto simp: feq_def)

lemma f64_trichotomy:
  "\<not> IsNaN x \<Longrightarrow> \<not> IsNaN y \<Longrightarrow> \<not> flt x y \<Longrightarrow> \<not> flt y x \<Longrightarrow> feq x y"
  by (auto simp: flt_def feq_def)

lemma uint64_bound: "uint (x :: float64) < 2 ^ 64"
  using uint_lt2p [of x] by simp

lemma mod_half:
  assumes "0 \<le> (u::int)" "u < 2 * m"
  shows "u mod m = (if u < m then u else u - m)"
proof (cases "u < m")
  case True
  then show ?thesis using assms by simp
next
  case False
  have "(u - m) mod m = u - m"
    using False assms by (intro mod_pos_pos_trivial) simp_all
  moreover have "(u - m) mod m = u mod m" by simp
  ultimately show ?thesis using False by simp
qed

lemma f64_abs_cases:
  "(f64_sign x \<and> uint x = 2 ^ 63 + f64_abs x) \<or> (\<not> f64_sign x \<and> uint x = f64_abs x)"
  using uint64_bound [of x] uint_ge_0 [of x] mod_half [of "uint x" "2 ^ 63"]
  by (auto simp: f64_sign_def f64_abs_def)

lemma f64_abs_bounds: "0 \<le> f64_abs x" "f64_abs x < 2 ^ 63"
  by (simp_all add: f64_abs_def)

lemma inf_facts:
  "\<not> IsNaN (math_Inf 1)" "f64_key (math_Inf 1) = 2047 * 2 ^ 52" "\<not> f64_sign (math_Inf 1)"
  by (simp_all add: math_Inf_def IsNaN_def f64_key_def f64_sign_def f64_abs_def)

lemma key_inf_unique:
  assumes "f64_key x = 2047 * 2 ^ 52"
  shows "x = math_Inf 1"
proof -
  have "uint x = 2047 * 2 ^ 52"
    using assms f64_abs_cases [of x] f64_abs_bounds [of x]
    by (auto simp: f64_key_def split: if_splits)
  then have "uint x = uint (math_Inf 1)" by (simp add: math_Inf_def)
  then show ?thesis by (simp only: word_uint_eq_iff)
qed

lemma key_le_inf: "\<not> IsNaN x \<Longrightarrow> f64_key x \<le> 2047 * 2 ^ 52"
  using f64_abs_bounds [of x] by (auto simp: IsNaN_def f64_key_def)

lemma zero_facts: "\<not> IsNaN 0" "f64_key 0 = 0"
  by (simp_all add: IsNaN_def f64_key_def f64_sign_def f64_abs_def)

lemma Copysign_1_inf: "Copysign 1 (math_Inf 1) = 1"
  by (simp add: Copysign_def math_Inf_def)

lemma one_facts: "\<not> IsNaN 1" "f64_key 1 = 1"
  by (simp_all add: IsNaN_def f64_key_def f64_sign_def f64_abs_def)

lemma Nextafter_Inf_step:
  assumes nn: "\<not> IsNaN x" and ni: "x \<noteq> math_Inf 1"
  shows "\<not> IsNaN (Nextafter x (math_Inf 1)) \<and> f64_key (Nextafter x (math_Inf 1)) = f64_key x + 1"
proof -
  have lt: "f64_key x < 2047 * 2 ^ 52"
    using key_le_inf [OF nn] key_inf_unique [of x] ni by fastforce
  have nfeq: "\<not> feq x (math_Inf 1)"
    using lt by (simp add: feq_def inf_facts)
  have gt: "fgt (math_Inf 1) x"
    using lt nn by (simp add: fgt_def flt_def inf_facts)
  show ?thesis
  proof (cases "feq x 0")
    case True
    then have "f64_key x = 0" by (simp add: feq_def zero_facts)
    moreover have "Nextafter x (math_Inf 1) = 1"
      using nn nfeq True by (simp add: Nextafter_def inf_facts Copysign_1_inf)
    ultimately show ?thesis by (simp add: one_facts)
  next
    case False
    then have k0: "f64_key x \<noteq> 0" using nn by (simp add: feq_def zero_facts)
    show ?thesis
    proof (cases "f64_sign x")
      case False
      define a where "a = f64_abs x"
      have ux: "uint x = a" and kx: "f64_key x = a"
        using False f64_abs_cases [of x] by (auto simp: f64_key_def a_def)
      have a: "0 < a" "a < 2047 * 2 ^ 52"
        using k0 kx lt f64_abs_bounds [of x] by (simp_all add: a_def)
      have pos: "fgt x 0" using kx a nn by (simp add: fgt_def flt_def zero_facts)
      have na: "Nextafter x (math_Inf 1) = x + 1"
        using nn nfeq \<open>\<not> feq x 0\<close> gt pos by (simp add: Nextafter_def inf_facts)
      have "uint (x + 1) = (uint x + 1) mod 2 ^ 64"
        by (simp add: uint_word_ariths)
      moreover have "(a + 1) mod 2 ^ 64 = a + 1"
        using a by (intro mod_pos_pos_trivial) simp_all
      ultimately have u1: "uint (x + 1) = a + 1" using ux by simp
      have m1: "(a + 1) mod 2 ^ 63 = a + 1"
        using a by (intro mod_pos_pos_trivial) simp_all
      have "f64_abs (x + 1) = a + 1" "\<not> f64_sign (x + 1)"
        using u1 m1 a by (simp_all add: f64_abs_def f64_sign_def)
      then show ?thesis
        using kx a by (simp add: na IsNaN_def f64_key_def)
    next
      case True
      define a where "a = f64_abs x"
      have ux: "uint x = 2 ^ 63 + a" and kx: "f64_key x = - a"
        using True f64_abs_cases [of x] by (auto simp: f64_key_def a_def)
      have a: "0 < a" "a < 2 ^ 63"
        using k0 kx f64_abs_bounds [of x] by (simp_all add: a_def)
      have nna: "a \<le> 2047 * 2 ^ 52"
        using nn by (simp add: IsNaN_def a_def)
      have npos: "\<not> fgt x 0" using kx a by (simp add: fgt_def flt_def zero_facts)
      have na: "Nextafter x (math_Inf 1) = x - 1"
        using nn nfeq \<open>\<not> feq x 0\<close> gt npos by (simp add: Nextafter_def inf_facts)
      have "uint (x - 1) = (uint x - 1) mod 2 ^ 64"
        by (simp add: uint_word_ariths)
      moreover have "(2 ^ 63 + a - 1) mod 2 ^ 64 = 2 ^ 63 + a - (1::int)"
        using a by (intro mod_pos_pos_trivial) simp_all
      ultimately have u1: "uint (x - 1) = 2 ^ 63 + a - 1" using ux by simp
      have m1: "(2 ^ 63 + a - 1) mod 2 ^ 63 = a - 1"
        using a mod_half [of "2 ^ 63 + a - 1" "2 ^ 63"] by simp
      have "f64_abs (x - 1) = a - 1" "f64_sign (x - 1)"
        using u1 m1 a by (simp_all add: f64_abs_def f64_sign_def)
      then show ?thesis
        using kx a nna by (simp add: na IsNaN_def f64_key_def)
    qed
  qed
qed

section \<open>Fewer than three points\<close>

text \<open>
  C2: \<open>IsClosed\<close> is false exactly when the polygon has fewer than 3 points, and
  whenever it is false (that is, for every polygon with fewer than 3 points) both
  versions of \<open>Contains\<close> return false for every query point.
\<close>

theorem C2_not_closed_contains_nothing:
  "(IsClosed p = (\<not> length (points p) < 3))
   \<and> (\<not> IsClosed p \<longrightarrow>
        Contains p point = Some False \<and> Contains_part001 p point = Some False)
   \<and> (length (points p) < 3 \<longrightarrow>
        Contains p point = Some False \<and> Contains_part001 p point = Some False)"
  by (simp add: IsClosed_def Contains_def Contains_part001_def)

theorem C2_not_closed_contains_nothing_witness:
  "length (points (NewPolygon [NewPoint f_0 f_0, NewPoint f_0 f_1])) < 3
   \<and> \<not> IsClosed (NewPolygon [NewPoint f_0 f_0, NewPoint f_0 f_1])
   \<and> Contains (NewPolygon [NewPoint f_0 f_0, NewPoint f_0 f_1]) (NewPoint f_0 f_0) = Some False
   \<and> Contains_part001 (NewPolygon [NewPoint f_0 f_0, NewPoint f_0 f_1]) (NewPoint f_0 f_0)
       = Some False"
  using C2_not_closed_contains_nothing
          [of "NewPolygon [NewPoint f_0 f_0, NewPoint f_0 f_1]" "NewPoint f_0 f_0"]
  by (simp add: NewPolygon_def)

section \<open>The square of the tests\<close>

text \<open>
  C1: for the square (0,0), (2,0), (2,2), (0,2), (0,0), \<open>Contains\<close> returns true for
  (1,1), false for (3,1), and true for each of the five vertices.  \<open>Contains\<close> of
  src/polygon.go does all of this.  \<open>Contains\<close> of src/unnamed/part_001 agrees on (1,1),
  on (3,1) and on the vertex (0,0), but returns false for the vertices (2,0), (2,2) and
  (0,2): the perturbation moves each of them one unit in the last place out of the
  square (to a latitude above 2, or to a longitude above 2).
\<close>

theorem C1_square_vertices:
  "Contains square (NewPoint f_1 f_1) = Some True
   \<and> Contains square (NewPoint f_3 f_1) = Some False
   \<and> map (Contains square) (points square)
       = [Some True, Some True, Some True, Some True, Some True]
   \<and> Contains_part001 square (NewPoint f_1 f_1) = Some True
   \<and> Contains_part001 square (NewPoint f_3 f_1) = Some False
   \<and> map (Contains_part001 square) (points square)
       = [Some True, Some False, Some False, Some False, Some True]"
  by code_simp

section \<open>The perturbation pass of src/unnamed/part_001\<close>

text \<open>
  C3: after the perturbation pass the query's latitude and longitude differ from every
  vertex's, and so both divisors of the slope comparison are nonzero.  The pass visits
  each vertex once and never looks back.  For the polygon (0, 1+ulp), (2, 1), (2, 5) and
  the query (1, 1) the pass ends at (1, 1+ulp), whose longitude is that of the first
  vertex; the edge from the first to the second vertex then falls through to the slope
  comparison, where \<open>point.lng - start.lng\<close> is zero and \<open>raySlope\<close> is \<open>+Inf\<close>.
  For the polygon (1+ulp, 1+ulp), (1, 1), (2, 5) the query (1, 1) is moved exactly onto
  the first vertex.
\<close>

theorem C3_perturbation_lands_on_earlier_vertex:
  "perturb adjacent_lng (NewPoint f_1 f_1) = Some (NewPoint f_1 f_1_next)
   \<and> feq (lng (NewPoint f_1 f_1_next)) (lng (adjacent_lng ! 0))
   \<and> order_edge (adjacent_lng ! 0) (adjacent_lng ! 1) = (adjacent_lng ! 0, adjacent_lng ! 1)
   \<and> band_checks (NewPoint f_1 f_1_next) (adjacent_lng ! 0) (adjacent_lng ! 1) = Fallthrough
   \<and> fsub (lng (NewPoint f_1 f_1_next)) (lng (adjacent_lng ! 0)) = f_0
   \<and> raySlope (NewPoint f_1 f_1_next) (adjacent_lng ! 0) = math_Inf 1
   \<and> perturb adjacent_vertex (NewPoint f_1 f_1) = Some (adjacent_vertex ! 0)"
  by code_simp

section \<open>The two versions compared\<close>

lemma shift_lat_id: "\<not> feq (lat point) (lat v) \<Longrightarrow> shift_lat point v = Some point"
  by (subst shift_lat.simps) simp

lemma shift_lng_id: "\<not> feq (lng point) (lng v) \<Longrightarrow> shift_lng point v = Some point"
  by (subst shift_lng.simps) simp

lemma shift_off_edge_id:
  "\<not> feq (lat point) (lat start) \<Longrightarrow> \<not> feq (lat point) (lat endp) \<Longrightarrow>
   shift_off_edge point start endp = Some point"
  by (subst shift_off_edge.simps) simp

lemma perturb_id:
  "\<forall>v \<in> set ps. \<not> feq (lat point) (lat v) \<and> \<not> feq (lng point) (lng v) \<Longrightarrow>
   perturb ps point = Some point"
  by (induction ps) (simp_all add: shift_lat_id shift_lng_id)

lemma order_edge_cases: "order_edge a b = (a, b) \<or> order_edge a b = (b, a)"
  by (simp add: order_edge_def)

lemma intersects_agree:
  assumes "\<not> feq (lat point) (lat a)" "\<not> feq (lat point) (lat b)"
    and "\<not> feq (lng point) (lng a)" "\<not> feq (lng point) (lng b)"
  shows "intersectsWithRaycast point a b = Some (intersectsWithRaycast_part001 point a b)"
  using assms order_edge_cases [of a b]
  by (auto simp: intersectsWithRaycast_def intersectsWithRaycast_part001_def shift_off_edge_id
           split: verdict.splits)

lemma edge_loop_agree:
  assumes "\<forall>v \<in> set ps. \<not> feq (lat point) (lat v) \<and> \<not> feq (lng point) (lng v)"
    and "\<forall>i \<in> set is. i < length ps"
  shows "edge_loop ps point is c =
         Some (fold (\<lambda>i contains.
                 if intersectsWithRaycast_part001 point (ps ! (i - 1)) (ps ! i)
                 then \<not> contains else contains) is c)"
  using assms(2)
proof (induction "is" arbitrary: c)
  case Nil
  then show ?case by simp
next
  case (Cons i "is")
  have "i < length ps" using Cons.prems by simp
  then have "ps ! i \<in> set ps" "ps ! (i - 1) \<in> set ps" by simp_all
  then have "intersectsWithRaycast point (ps ! (i - 1)) (ps ! i)
             = Some (intersectsWithRaycast_part001 point (ps ! (i - 1)) (ps ! i))"
    using assms(1) by (intro intersects_agree) blast+
  then show ?case using Cons by simp
qed

lemma contains_agree:
  assumes "\<forall>v \<in> set (points p). \<not> feq (lat point) (lat v) \<and> \<not> feq (lng point) (lng v)"
  shows "Contains p point = Contains_part001 p point"
proof (cases "IsClosed p")
  case False
  then show ?thesis by (simp add: Contains_def Contains_part001_def)
next
  case True
  then have len: "3 \<le> length (points p)" by (simp add: IsClosed_def split: if_splits)
  then have "points p ! (length (points p) - 1) \<in> set (points p)" "points p ! 0 \<in> set (points p)"
    by (auto intro!: nth_mem)
  then have wrap: "intersectsWithRaycast point (points p ! (length (points p) - 1)) (points p ! 0)
       = Some (intersectsWithRaycast_part001 point (points p ! (length (points p) - 1)) (points p ! 0))"
    using assms by (intro intersects_agree) blast+
  have nov: "\<not> list_ex (\<lambda>v. feq (lat v) (lat point) \<and> feq (lng v) (lng point)) (points p)"
    using assms by (auto simp: list_ex_iff feq_def)
  show ?thesis
    using True nov wrap assms
    by (simp add: Contains_def Contains_part001_def perturb_id edge_loop_agree
          edge_parity_part001_def)
qed

text \<open>
  C4, as stated: both versions of \<open>Contains\<close> return the same boolean for every polygon
  and query.  On the unit square of \<open>TestPolygonSimple\<close> and its vertex (1,1) they
  differ.
\<close>

theorem C4_counterexample:
  "Contains unit_square (NewPoint f_1 f_1) = Some True
   \<and> Contains_part001 unit_square (NewPoint f_1 f_1) = Some False"
  by code_simp

text \<open>
  C4, amended: when the query shares no latitude and no longitude with any vertex of
  the polygon, both versions of \<open>Contains\<close> return the same boolean.
\<close>

theorem C4_agree_off_vertex_coordinates:
  assumes "\<forall>v \<in> set (points p). \<not> feq (lat point) (lat v) \<and> \<not> feq (lng point) (lng v)"
  shows "Contains p point = Contains_part001 p point
       \<and> (\<exists>b. Contains p point = Some b)"
proof -
  have "Contains_part001 p point
        = (if \<not> IsClosed p then Some False else Some (edge_parity_part001 (points p) point))"
    using assms by (simp add: Contains_part001_def perturb_id)
  then have "\<exists>b. Contains_part001 p point = Some b" by auto
  then show ?thesis using contains_agree [OF assms] by simp
qed

theorem C4_agree_off_vertex_coordinates_witness:
  "list_all (\<lambda>v. \<not> feq (lat (NewPoint f_1 f_1)) (lat v) \<and> \<not> feq (lng (NewPoint f_1 f_1)) (lng v))
     (points square)
   \<and> Contains square (NewPoint f_1 f_1) = Contains_part001 square (NewPoint f_1 f_1)
   \<and> Contains square (NewPoint f_1 f_1) = Some True"
proof -
  have h: "\<forall>v \<in> set (points square).
       \<not> feq (lat (NewPoint f_1 f_1)) (lat v) \<and> \<not> feq (lng (NewPoint f_1 f_1)) (lng v)"
    by code_simp
  have t: "Contains square (NewPoint f_1 f_1) = Some True"
    by code_simp
  show ?thesis
    using C4_agree_off_vertex_coordinates [OF h] h t by (simp add: list_all_iff)
qed

section \<open>Reversing the point order\<close>

lemma intersects_part001_sym:
  assumes "\<not> IsNaN (lat point)" "\<not> IsNaN (lat a)" "\<not> IsNaN (lat b)"
    and "\<not> feq (lat point) (lat a)" "\<not> feq (lat point) (lat b)"
  shows "intersectsWithRaycast_part001 point a b = intersectsWithRaycast_part001 point b a"
proof -
  consider "flt (lat a) (lat b)" | "flt (lat b) (lat a)" | "feq (lat a) (lat b)"
    using assms(2,3) f64_trichotomy by blast
  then show ?thesis
  proof cases
    case 1
    then have "order_edge a b = (a, b)" "order_edge b a = (a, b)"
      by (auto simp: order_edge_def fgt_def flt_def)
    then show ?thesis by (simp add: intersectsWithRaycast_part001_def)
  next
    case 2
    then have "order_edge a b = (b, a)" "order_edge b a = (b, a)"
      by (auto simp: order_edge_def fgt_def flt_def)
    then show ?thesis by (simp add: intersectsWithRaycast_part001_def)
  next
    case 3
    then have o: "order_edge a b = (a, b)" "order_edge b a = (b, a)"
      by (auto simp: order_edge_def fgt_def flt_def feq_def)
    have "flt (lat point) (lat a) \<or> fgt (lat point) (lat b)"
      "flt (lat point) (lat b) \<or> fgt (lat point) (lat a)"
      using 3 assms by (auto simp: fgt_def flt_def feq_def)
    then have "band_checks point a b = Return False" "band_checks point b a = Return False"
      by (simp_all add: band_checks_def)
    then show ?thesis using o by (simp add: intersectsWithRaycast_part001_def)
  qed
qed

lemma index_pairs: "map (\<lambda>i. (ps ! (i - 1), ps ! i)) [1..<length ps] = zip ps (tl ps)"
  by (rule nth_equalityI) (auto simp: nth_tl)

lemma zip_rev_tl: "zip (rev ps) (tl (rev ps)) = rev (map (\<lambda>(a, b). (b, a)) (zip ps (tl ps)))"
proof (rule nth_equalityI)
  show "length (zip (rev ps) (tl (rev ps))) = length (rev (map (\<lambda>(a, b). (b, a)) (zip ps (tl ps))))"
    by simp
next
  fix k assume "k < length (zip (rev ps) (tl (rev ps)))"
  then have k: "k < length ps - 1" by simp
  then have "length ps - 1 - Suc k < length ps - 1" "Suc (length ps - 1 - Suc k) = length ps - Suc k"
    by linarith+
  then show "zip (rev ps) (tl (rev ps)) ! k = rev (map (\<lambda>(a, b). (b, a)) (zip ps (tl ps))) ! k"
    using k by (simp add: rev_nth nth_tl)
qed

lemma flip_if_commute: "flip_if g x \<circ> flip_if g y = flip_if g y \<circ> flip_if g x"
  by (auto simp: flip_if_def fun_eq_iff)

lemma fold_edges_rev:
  assumes sym: "\<And>a b. a \<in> set ps \<Longrightarrow> b \<in> set ps \<Longrightarrow> g a b = g b a"
  shows "fold (\<lambda>i c. if g (rev ps ! (i - 1)) (rev ps ! i) then \<not> c else c) [1..<length (rev ps)] c0
       = fold (\<lambda>i c. if g (ps ! (i - 1)) (ps ! i) then \<not> c else c) [1..<length ps] c0"
proof -
  have as_pairs: "fold (\<lambda>i c. if g (qs ! (i - 1)) (qs ! i) then \<not> c else c) [1..<length qs] c0
                  = fold (flip_if g) (zip qs (tl qs)) c0" for qs
  proof -
    have "(\<lambda>i c. if g (qs ! (i - 1)) (qs ! i) then \<not> c else c)
          = flip_if g \<circ> (\<lambda>i. (qs ! (i - 1), qs ! i))"
      by (simp add: flip_if_def fun_eq_iff)
    moreover have "fold (flip_if g \<circ> (\<lambda>i. (qs ! (i - 1), qs ! i))) [1..<length qs] c0
          = fold (flip_if g) (map (\<lambda>i. (qs ! (i - 1), qs ! i)) [1..<length qs]) c0"
      by (simp only: fold_map)
    ultimately show ?thesis by (simp only: index_pairs)
  qed
  have in_ps: "a \<in> set ps \<and> b \<in> set ps" if "(a, b) \<in> set (zip ps (tl ps))" for a b
    using set_zip_leftD [OF that] set_zip_rightD [OF that] by (cases ps) auto
  have "fold (flip_if g) (zip (rev ps) (tl (rev ps))) c0
        = fold (flip_if g) (map (\<lambda>(a, b). (b, a)) (zip ps (tl ps))) c0"
    unfolding zip_rev_tl by (rule fun_cong [OF fold_rev]) (rule flip_if_commute)
  also have "\<dots> = fold (flip_if g \<circ> (\<lambda>(a, b). (b, a))) (zip ps (tl ps)) c0"
    by (simp add: fold_map)
  also have "\<dots> = fold (flip_if g) (zip ps (tl ps)) c0"
  proof (rule fold_cong [OF refl refl])
    fix e assume "e \<in> set (zip ps (tl ps))"
    then have "fst e \<in> set ps \<and> snd e \<in> set ps" using in_ps [of "fst e" "snd e"] by simp
    then show "(flip_if g \<circ> (\<lambda>(a, b). (b, a))) e = flip_if g e"
      using sym by (auto simp: flip_if_def fun_eq_iff split: prod.splits)
  qed
  finally show ?thesis by (simp only: as_pairs)
qed

lemma edge_parity_part001_rev:
  assumes "\<not> IsNaN (lat point)"
    and "\<forall>v \<in> set ps. \<not> IsNaN (lat v) \<and> \<not> feq (lat point) (lat v)"
  shows "edge_parity_part001 (rev ps) point = edge_parity_part001 ps point"
proof (cases "ps = []")
  case True
  then show ?thesis by simp
next
  case False
  have sym: "intersectsWithRaycast_part001 point a b = intersectsWithRaycast_part001 point b a"
    if "a \<in> set ps" "b \<in> set ps" for a b
    using that assms by (intro intersects_part001_sym) auto
  have ends: "rev ps ! (length (rev ps) - 1) = ps ! 0" "rev ps ! 0 = ps ! (length ps - 1)"
    using False by (simp_all add: rev_nth)
  have "ps ! 0 \<in> set ps" "ps ! (length ps - 1) \<in> set ps"
    using False by simp_all
  then have wrap: "intersectsWithRaycast_part001 point (ps ! 0) (ps ! (length ps - 1))
                 = intersectsWithRaycast_part001 point (ps ! (length ps - 1)) (ps ! 0)"
    by (rule sym)
  show ?thesis
    unfolding edge_parity_part001_def ends wrap
    by (rule fold_edges_rev) (rule sym)
qed

text \<open>
  When no latitude of the query or of a vertex is NaN and the query shares no latitude
  and no longitude with any vertex, no version of \<open>Contains\<close> moves the query, and
  both return the same boolean on the reversed point list.
\<close>

lemma reversal_off_vertex_coordinates:
  assumes "\<not> IsNaN (lat point)"
    and "\<forall>v \<in> set ps. \<not> IsNaN (lat v) \<and> \<not> feq (lat point) (lat v) \<and> \<not> feq (lng point) (lng v)"
  shows "Contains_part001 (NewPolygon (rev ps)) point = Contains_part001 (NewPolygon ps) point
       \<and> Contains (NewPolygon (rev ps)) point = Contains (NewPolygon ps) point"
proof -
  have id: "perturb ps point = Some point" "perturb (rev ps) point = Some point"
    using assms(2) by (simp_all add: perturb_id)
  have par: "edge_parity_part001 (rev ps) point = edge_parity_part001 ps point"
    using assms by (intro edge_parity_part001_rev) auto
  have old: "Contains_part001 (NewPolygon (rev ps)) point = Contains_part001 (NewPolygon ps) point"
    using id par by (simp add: Contains_part001_def NewPolygon_def IsClosed_def)
  have "Contains (NewPolygon (rev ps)) point = Contains_part001 (NewPolygon (rev ps)) point"
    "Contains (NewPolygon ps) point = Contains_part001 (NewPolygon ps) point"
    using assms(2) by (simp_all add: contains_agree NewPolygon_def)
  then show ?thesis using old by simp
qed

section \<open>Termination\<close>

lemma feq_not_inf: "feq x v \<Longrightarrow> v \<noteq> math_Inf 1 \<Longrightarrow> x \<noteq> math_Inf 1"
  using key_inf_unique [of v] by (auto simp: feq_def inf_facts)

lemma shift_lat_total:
  assumes "lat v \<noteq> math_Inf 1"
  shows "\<exists>point'. shift_lat point v = Some point'"
proof (cases "feq (lat point) (lat v)")
  case False
  then show ?thesis by (subst shift_lat.simps) simp
next
  case True
  let ?next = "NewPoint (Nextafter (lat point) (math_Inf 1)) (lng point)"
  have "\<not> IsNaN (lat point)" "lat point \<noteq> math_Inf 1"
    using True assms feq_not_inf by (auto simp: feq_def)
  then have "f64_key (lat ?next) = f64_key (lat point) + 1"
    using Nextafter_Inf_step [of "lat point"] by (simp add: NewPoint_def)
  then have "\<not> feq (lat ?next) (lat v)"
    using True by (simp add: feq_def)
  then have "shift_lat ?next v = Some ?next"
    by (subst shift_lat.simps) simp
  then show ?thesis using True by (subst shift_lat.simps) simp
qed

lemma shift_lng_total:
  assumes "lng v \<noteq> math_Inf 1"
  shows "\<exists>point'. shift_lng point v = Some point'"
proof (cases "feq (lng point) (lng v)")
  case False
  then show ?thesis by (subst shift_lng.simps) simp
next
  case True
  let ?next = "NewPoint (lat point) (Nextafter (lng point) (math_Inf 1))"
  have "\<not> IsNaN (lng point)" "lng point \<noteq> math_Inf 1"
    using True assms feq_not_inf by (auto simp: feq_def)
  then have "f64_key (lng ?next) = f64_key (lng point) + 1"
    using Nextafter_Inf_step [of "lng point"] by (simp add: NewPoint_def)
  then have "\<not> feq (lng ?next) (lng v)"
    using True by (simp add: feq_def)
  then have "shift_lng ?next v = Some ?next"
    by (subst shift_lng.simps) simp
  then show ?thesis using True by (subst shift_lng.simps) simp
qed

lemma perturb_total:
  "\<forall>v \<in> set ps. lat v \<noteq> math_Inf 1 \<and> lng v \<noteq> math_Inf 1 \<Longrightarrow>
   \<exists>point'. perturb ps point = Some point'"
proof (induction ps arbitrary: point)
  case Nil
  then show ?case by simp
next
  case (Cons v vs)
  obtain p1 where p1: "shift_lat point v = Some p1"
    using shift_lat_total [of v point] Cons.prems by auto
  obtain p2 where p2: "shift_lng p1 v = Some p2"
    using shift_lng_total [of v p1] Cons.prems by auto
  show ?case using p1 p2 Cons.IH [of p2] Cons.prems by simp
qed

text \<open>The per-edge loop: each round adds one to the key, and two rounds clear both endpoints.\<close>

lemma shift_off_edge_total:
  assumes s: "lat start \<noteq> math_Inf 1" and e: "lat endp \<noteq> math_Inf 1"
  shows "\<exists>point'. shift_off_edge point start endp = Some point'"
proof -
  define hit where "hit x = (feq x (lat start) \<or> feq x (lat endp))" for x
  define step where "step pt = NewPoint (Nextafter (lat pt) (math_Inf 1)) (lng pt)" for pt :: Point
  have unfold: "shift_off_edge pt start endp =
                  (if hit (lat pt) then shift_off_edge (step pt) start endp else Some pt)" for pt
    by (subst shift_off_edge.simps) (simp add: hit_def step_def)
  have key: "hit (lat pt) \<Longrightarrow>
             \<not> IsNaN (lat (step pt)) \<and> f64_key (lat (step pt)) = f64_key (lat pt) + 1" for pt
    using Nextafter_Inf_step [of "lat pt"] feq_not_inf s e
    by (auto simp: hit_def step_def NewPoint_def feq_def)
  show ?thesis
  proof (cases "hit (lat point)")
    case False
    then show ?thesis by (simp add: unfold)
  next
    case h0: True
    show ?thesis
    proof (cases "hit (lat (step point))")
      case False
      then show ?thesis using h0 by (simp add: unfold)
    next
      case h1: True
      have k1: "f64_key (lat (step point)) = f64_key (lat point) + 1"
        using key [OF h0] by simp
      have k2: "f64_key (lat (step (step point))) = f64_key (lat point) + 2"
        using key [OF h1] k1 by simp
      have "\<not> hit (lat (step (step point)))"
        using h0 h1 k1 k2 by (auto simp: hit_def feq_def)
      then show ?thesis using h0 h1 by (simp add: unfold)
    qed
  qed
qed

lemma intersectsWithRaycast_total:
  assumes "lat a \<noteq> math_Inf 1" "lat b \<noteq> math_Inf 1"
  shows "\<exists>r. intersectsWithRaycast point a b = Some r"
proof -
  obtain s e where se: "order_edge a b = (s, e)" by (cases "order_edge a b")
  then have "lat s \<noteq> math_Inf 1" "lat e \<noteq> math_Inf 1"
    using assms by (auto simp: order_edge_def split: if_splits)
  then obtain point' where "shift_off_edge point s e = Some point'"
    using shift_off_edge_total by blast
  then show ?thesis using se by (simp add: intersectsWithRaycast_def)
qed

lemma edge_loop_total:
  assumes "\<forall>v \<in> set ps. lat v \<noteq> math_Inf 1" "\<forall>i \<in> set is. i < length ps"
  shows "\<exists>r. edge_loop ps point is c = Some r"
  using assms(2)
proof (induction "is" arbitrary: c)
  case Nil
  then show ?case by simp
next
  case (Cons i "is")
  have "i < length ps" using Cons.prems by simp
  then have "ps ! i \<in> set ps" "ps ! (i - 1) \<in> set ps" by simp_all
  then obtain b where "intersectsWithRaycast point (ps ! (i - 1)) (ps ! i) = Some b"
    using assms(1) intersectsWithRaycast_total by blast
  then show ?case using Cons by simp
qed

lemma Nextafter_Inf_Inf: "Nextafter (math_Inf 1) (math_Inf 1) = math_Inf 1"
  by (simp add: Nextafter_def feq_def inf_facts)

lemma shift_lat_diverges:
  assumes "shift_lat point v = Some y"
  shows "\<not> (lat point = math_Inf 1 \<and> lat v = math_Inf 1)"
proof (rule shift_lat.raw_induct
         [where P = "\<lambda>point v y. \<not> (lat point = math_Inf 1 \<and> lat v = math_Inf 1)"])
  fix f and pt w r :: Point
  assume IH: "\<And>pt w r. f pt w = Some r \<Longrightarrow> \<not> (lat pt = math_Inf 1 \<and> lat w = math_Inf 1)"
    and eq: "(if feq (lat pt) (lat w)
              then f (NewPoint (Nextafter (lat pt) (math_Inf 1)) (lng pt)) w
              else Some pt) = Some r"
  show "\<not> (lat pt = math_Inf 1 \<and> lat w = math_Inf 1)"
  proof
    assume inf: "lat pt = math_Inf 1 \<and> lat w = math_Inf 1"
    then have "feq (lat pt) (lat w)" by (simp add: feq_def inf_facts)
    then have "f (NewPoint (Nextafter (lat pt) (math_Inf 1)) (lng pt)) w = Some r"
      using eq by simp
    from IH [OF this] show False
      using inf by (simp add: NewPoint_def Nextafter_Inf_Inf)
  qed
next
  show "shift_lat point v = Some y" by fact
qed

lemma shift_off_edge_diverges:
  assumes "shift_off_edge point start endp = Some y"
  shows "\<not> (lat point = math_Inf 1 \<and> lat endp = math_Inf 1)"
proof (rule shift_off_edge.raw_induct
         [where P = "\<lambda>point start endp y. \<not> (lat point = math_Inf 1 \<and> lat endp = math_Inf 1)"])
  fix f and pt s e r :: Point
  assume IH: "\<And>pt s e r. f pt s e = Some r \<Longrightarrow> \<not> (lat pt = math_Inf 1 \<and> lat e = math_Inf 1)"
    and eq: "(if feq (lat pt) (lat s) \<or> feq (lat pt) (lat e)
              then f (NewPoint (Nextafter (lat pt) (math_Inf 1)) (lng pt)) s e
              else Some pt) = Some r"
  show "\<not> (lat pt = math_Inf 1 \<and> lat e = math_Inf 1)"
  proof
    assume inf: "lat pt = math_Inf 1 \<and> lat e = math_Inf 1"
    then have "feq (lat pt) (lat e)" by (simp add: feq_def inf_facts)
    then have "f (NewPoint (Nextafter (lat pt) (math_Inf 1)) (lng pt)) s e = Some r"
      using eq by simp
    from IH [OF this] show False
      using inf by (simp add: NewPoint_def Nextafter_Inf_Inf)
  qed
next
  show "shift_off_edge point start endp = Some y" by fact
qed

text \<open>
  C6: \<open>Contains\<close> returns a boolean for every polygon and query, also for a query
  latitude of \<open>+Inf\<close>.  \<open>Nextafter (+Inf) (+Inf)\<close> is \<open>+Inf\<close>, so a loop that waits for
  the query's latitude to leave a vertex latitude of \<open>+Inf\<close> never exits: for the
  triangle (+Inf, 0), (0, 1), (1, 0) and the query (+Inf, 5) neither version of
  \<open>Contains\<close> returns.
\<close>

theorem C6_loops_forever_at_inf:
  "Contains_part001 (NewPolygon inf_triangle) (NewPoint (math_Inf 1) f_5) = None
   \<and> Contains (NewPolygon inf_triangle) (NewPoint (math_Inf 1) f_5) = None"
proof -
  have a: "shift_lat (NewPoint (math_Inf 1) f_5) (NewPoint (math_Inf 1) f_0) = None"
    using shift_lat_diverges [of "NewPoint (math_Inf 1) f_5" "NewPoint (math_Inf 1) f_0"]
    by (cases "shift_lat (NewPoint (math_Inf 1) f_5) (NewPoint (math_Inf 1) f_0)")
       (simp_all add: NewPoint_def)
  have b: "shift_off_edge (NewPoint (math_Inf 1) f_5) (NewPoint f_1 f_0) (NewPoint (math_Inf 1) f_0) = None"
    using shift_off_edge_diverges [of "NewPoint (math_Inf 1) f_5" "NewPoint f_1 f_0" "NewPoint (math_Inf 1) f_0"]
    by (cases "shift_off_edge (NewPoint (math_Inf 1) f_5) (NewPoint f_1 f_0) (NewPoint (math_Inf 1) f_0)")
       (simp_all add: NewPoint_def)
  have o: "order_edge (NewPoint f_1 f_0) (NewPoint (math_Inf 1) f_0) = (NewPoint f_1 f_0, NewPoint (math_Inf 1) f_0)"
    by code_simp
  have v: "\<not> list_ex (\<lambda>v. feq (lat v) (lat (NewPoint (math_Inf 1) f_5)) \<and> feq (lng v) (lng (NewPoint (math_Inf 1) f_5))) inf_triangle"
    by code_simp
  have c: "IsClosed (NewPolygon inf_triangle)"
    by code_simp
  show ?thesis
    using a b o v c
    by (simp add: Contains_part001_def Contains_def NewPolygon_def inf_triangle_def
          intersectsWithRaycast_def)
qed

text \<open>
  The loops exit whenever no vertex is at \<open>+Inf\<close>: for every polygon none of whose vertex
  coordinates is \<open>+Inf\<close>, and for every query point (also with coordinates \<open>+Inf\<close>,
  \<open>-Inf\<close> or NaN), both versions of \<open>Contains\<close> return a boolean.  The indices read
  are \<open>len - 1\<close>, \<open>0\<close>, \<open>i - 1\<close> and \<open>i\<close> for \<open>1 \<le> i < len\<close> with \<open>len \<ge> 3\<close>, all in range.
\<close>

theorem Contains_returns_when_no_vertex_is_inf:
  assumes "\<forall>v \<in> set (points p). lat v \<noteq> math_Inf 1 \<and> lng v \<noteq> math_Inf 1"
  shows "(\<exists>b. Contains p point = Some b) \<and> (\<exists>b. Contains_part001 p point = Some b)"
proof (cases "IsClosed p")
  case False
  then have "Contains p point = Some False" "Contains_part001 p point = Some False"
    by (simp_all add: Contains_def Contains_part001_def)
  then show ?thesis by blast
next
  case True
  then have len: "3 \<le> length (points p)" by (simp add: IsClosed_def split: if_splits)
  then have "points p ! (length (points p) - 1) \<in> set (points p)" "points p ! 0 \<in> set (points p)"
    by (auto intro!: nth_mem)
  then obtain c where wrap:
    "intersectsWithRaycast point (points p ! (length (points p) - 1)) (points p ! 0) = Some c"
    using assms intersectsWithRaycast_total by blast
  obtain r where "edge_loop (points p) point [1..<length (points p)] c = Some r"
    using edge_loop_total [of "points p" "[1..<length (points p)]" point c] assms by auto
  then have go: "\<exists>b. Contains p point = Some b"
    using wrap True by (auto simp: Contains_def)
  obtain point' where "perturb (points p) point = Some point'"
    using perturb_total assms by blast
  then have "\<exists>b. Contains_part001 p point = Some b"
    using True by (auto simp: Contains_part001_def)
  then show ?thesis using go by simp
qed

theorem Contains_returns_when_no_vertex_is_inf_witness:
  "list_all (\<lambda>v. lat v \<noteq> math_Inf 1 \<and> lng v \<noteq> math_Inf 1) (points square)
   \<and> (\<exists>b. Contains square (NewPoint (math_Inf 1) NaN) = Some b)
   \<and> (\<exists>b. Contains_part001 square (NewPoint (math_Inf 1) NaN) = Some b)"
proof -
  have h: "\<forall>v \<in> set (points square). lat v \<noteq> math_Inf 1 \<and> lng v \<noteq> math_Inf 1"
    by code_simp
  show ?thesis
    using Contains_returns_when_no_vertex_is_inf [OF h, of "NewPoint (math_Inf 1) NaN"] h
    by (simp add: list_all_iff)
qed

section \<open>Reversing the point order: the perturbation pass\<close>

text \<open>
  Each loop of the pass either leaves the query, moves it one step, or never exits; so
  the pass is \<open>nudge\<close> on each coordinate.  When no vertex coordinate is one unit in
  the last place above another, the first step taken leaves every vertex behind and
  the result does not depend on the order of the vertices.
\<close>

lemma feq_inf_eq: "feq x (math_Inf 1) \<Longrightarrow> x = math_Inf 1"
  using key_inf_unique [of x] by (simp add: feq_def inf_facts)

lemma shift_lng_diverges:
  assumes "shift_lng point v = Some y"
  shows "\<not> (lng point = math_Inf 1 \<and> lng v = math_Inf 1)"
proof (rule shift_lng.raw_induct
         [where P = "\<lambda>point v y. \<not> (lng point = math_Inf 1 \<and> lng v = math_Inf 1)"])
  fix f and pt w r :: Point
  assume IH: "\<And>pt w r. f pt w = Some r \<Longrightarrow> \<not> (lng pt = math_Inf 1 \<and> lng w = math_Inf 1)"
    and eq: "(if feq (lng pt) (lng w)
              then f (NewPoint (lat pt) (Nextafter (lng pt) (math_Inf 1))) w
              else Some pt) = Some r"
  show "\<not> (lng pt = math_Inf 1 \<and> lng w = math_Inf 1)"
  proof
    assume inf: "lng pt = math_Inf 1 \<and> lng w = math_Inf 1"
    then have "feq (lng pt) (lng w)" by (simp add: feq_def inf_facts)
    then have "f (NewPoint (lat pt) (Nextafter (lng pt) (math_Inf 1))) w = Some r"
      using eq by simp
    from IH [OF this] show False
      using inf by (simp add: NewPoint_def Nextafter_Inf_Inf)
  qed
next
  show "shift_lng point v = Some y" by fact
qed

lemma shift_lat_cases:
  "shift_lat point v =
     (if \<not> feq (lat point) (lat v) then Some point
      else if lat v = math_Inf 1 then None
      else Some (NewPoint (Nextafter (lat point) (math_Inf 1)) (lng point)))"
proof (cases "feq (lat point) (lat v)")
  case False
  then show ?thesis by (simp add: shift_lat_id)
next
  case True
  show ?thesis
  proof (cases "lat v = math_Inf 1")
    case inf: True
    then have "lat point = math_Inf 1" using True feq_inf_eq by simp
    then have "shift_lat point v = None"
      using shift_lat_diverges [of point v] inf by (cases "shift_lat point v") auto
    then show ?thesis using True inf by simp
  next
    case False
    let ?next = "NewPoint (Nextafter (lat point) (math_Inf 1)) (lng point)"
    have "\<not> IsNaN (lat point)" "lat point \<noteq> math_Inf 1"
      using True False feq_not_inf by (auto simp: feq_def)
    then have "f64_key (lat ?next) = f64_key (lat point) + 1"
      using Nextafter_Inf_step [of "lat point"] by (simp add: NewPoint_def)
    then have "\<not> feq (lat ?next) (lat v)"
      using True by (simp add: feq_def)
    then have "shift_lat ?next v = Some ?next"
      by (simp add: shift_lat_id)
    then have "shift_lat point v = Some ?next"
      using True by (subst shift_lat.simps) simp
    then show ?thesis using True False by simp
  qed
qed

lemma shift_lng_cases:
  "shift_lng point v =
     (if \<not> feq (lng point) (lng v) then Some point
      else if lng v = math_Inf 1 then None
      else Some (NewPoint (lat point) (Nextafter (lng point) (math_Inf 1))))"
proof (cases "feq (lng point) (lng v)")
  case False
  then show ?thesis by (simp add: shift_lng_id)
next
  case True
  show ?thesis
  proof (cases "lng v = math_Inf 1")
    case inf: True
    then have "lng point = math_Inf 1" using True feq_inf_eq by simp
    then have "shift_lng point v = None"
      using shift_lng_diverges [of point v] inf by (cases "shift_lng point v") auto
    then show ?thesis using True inf by simp
  next
    case False
    let ?next = "NewPoint (lat point) (Nextafter (lng point) (math_Inf 1))"
    have "\<not> IsNaN (lng point)" "lng point \<noteq> math_Inf 1"
      using True False feq_not_inf by (auto simp: feq_def)
    then have "f64_key (lng ?next) = f64_key (lng point) + 1"
      using Nextafter_Inf_step [of "lng point"] by (simp add: NewPoint_def)
    then have "\<not> feq (lng ?next) (lng v)"
      using True by (simp add: feq_def)
    then have "shift_lng ?next v = Some ?next"
      by (simp add: shift_lng_id)
    then have "shift_lng point v = Some ?next"
      using True by (subst shift_lng.simps) simp
    then show ?thesis using True False by simp
  qed
qed

lemma perturb_nudge:
  "perturb ps point =
     (case nudge (lat point) (map lat ps) of
        None \<Rightarrow> None
      | Some la \<Rightarrow>
          (case nudge (lng point) (map lng ps) of
             None \<Rightarrow> None
           | Some ln \<Rightarrow> Some (NewPoint la ln)))"
proof (induction ps arbitrary: point)
  case Nil
  show ?case by (simp add: NewPoint_def)
next
  case (Cons v vs)
  show ?case
    by (simp add: shift_lat_cases shift_lng_cases Cons.IH NewPoint_def split: option.splits)
qed

lemma feq_next_cong:
  assumes "feq x c" "c \<noteq> math_Inf 1"
  shows "feq d (Nextafter x (math_Inf 1)) = feq d (Nextafter c (math_Inf 1))"
proof -
  have "\<not> IsNaN x" "\<not> IsNaN c" "x \<noteq> math_Inf 1" "f64_key x = f64_key c"
    using assms feq_not_inf by (auto simp: feq_def)
  then show ?thesis
    using Nextafter_Inf_step [of x] Nextafter_Inf_step [of c] assms(2)
    by (simp add: feq_def)
qed

lemma nudge_closed:
  assumes "\<forall>c \<in> set cs. \<forall>d \<in> set cs. \<not> one_ulp_above c d"
  shows "nudge x cs =
           (if \<not> (\<exists>c \<in> set cs. feq x c) then Some x
            else if x = math_Inf 1 then None
            else Some (Nextafter x (math_Inf 1)))"
  using assms
proof (induction cs arbitrary: x)
  case Nil
  then show ?case by simp
next
  case (Cons c cs)
  have adj: "\<forall>c \<in> set cs. \<forall>d \<in> set cs. \<not> one_ulp_above c d"
    using Cons.prems by simp
  note IH = Cons.IH [OF adj]
  show ?case
  proof (cases "feq x c")
    case False
    then show ?thesis using IH [of x] by simp
  next
    case True
    show ?thesis
    proof (cases "c = math_Inf 1")
      case inf: True
      then have "x = math_Inf 1" using True feq_inf_eq by simp
      then show ?thesis using True inf by auto
    next
      case False
      have xi: "x \<noteq> math_Inf 1" using True False feq_not_inf by blast
      have "\<not> feq (Nextafter x (math_Inf 1)) d" if "d \<in> set cs" for d
      proof -
        have "\<not> one_ulp_above d c" using Cons.prems that by simp
        then have "\<not> feq d (Nextafter c (math_Inf 1))"
          using False by (simp add: one_ulp_above_def)
        then show ?thesis
          using feq_next_cong [OF True False, of d] feq_sym by blast
      qed
      then have "nudge (Nextafter x (math_Inf 1)) cs = Some (Nextafter x (math_Inf 1))"
        using IH [of "Nextafter x (math_Inf 1)"] by auto
      then show ?thesis using True False xi by auto
    qed
  qed
qed

lemma nudge_off:
  assumes adj: "\<forall>c \<in> set cs. \<forall>d \<in> set cs. \<not> one_ulp_above c d"
    and res: "nudge x cs = Some y" and nn: "\<not> IsNaN x"
  shows "\<not> IsNaN y \<and> (\<forall>d \<in> set cs. \<not> feq y d)"
proof (cases "\<exists>c \<in> set cs. feq x c")
  case False
  then have "y = x" using res nudge_closed [OF adj, of x] by simp
  then show ?thesis using False nn by simp
next
  case True
  then obtain c where c: "c \<in> set cs" "feq x c" by blast
  have xi: "x \<noteq> math_Inf 1" and y: "y = Nextafter x (math_Inf 1)"
    using res True nudge_closed [OF adj, of x] by (auto split: if_splits)
  have ci: "c \<noteq> math_Inf 1"
    using c(2) xi feq_inf_eq by blast
  have "\<not> feq y d" if "d \<in> set cs" for d
  proof -
    have "\<not> one_ulp_above d c" using adj that c(1) by simp
    then have "\<not> feq d (Nextafter c (math_Inf 1))"
      using ci by (simp add: one_ulp_above_def)
    then show ?thesis
      using feq_next_cong [OF c(2) ci, of d] feq_sym y by blast
  qed
  moreover have "\<not> IsNaN y"
    using Nextafter_Inf_step [OF nn xi] y by simp
  ultimately show ?thesis by simp
qed

lemma nudge_rev:
  assumes "\<forall>c \<in> set cs. \<forall>d \<in> set cs. \<not> one_ulp_above c d"
  shows "nudge x (rev cs) = nudge x cs"
proof -
  have "\<forall>c \<in> set (rev cs). \<forall>d \<in> set (rev cs). \<not> one_ulp_above c d"
    using assms by simp
  then show ?thesis
    using nudge_closed [of "rev cs" x] nudge_closed [OF assms, of x] by simp
qed

text \<open>
  C5, as stated: \<open>Contains\<close> is invariant under reversing the point list.  Four
  inputs on which the two orders differ: vertex latitudes one unit in the last place
  apart (triangle (1, 2), (1+ulp, 1), (3, 1), query (1, 0)); a vertex latitude NaN, whose
  edges are never reordered (triangle (NaN, 4), (4, 0), (6, 2), query (5, 1)); vertex
  longitudes one unit in the last place apart (triangle (2, 1+ulp), (4, 1), (0, 0), query
  (3, 1)); and a query latitude NaN (triangle (4, NaN), (2, 4), (4, 4), query (NaN, 3)).
\<close>

theorem C5_counterexample:
  "Contains_part001 (NewPolygon adjacent_lat) (NewPoint f_1 f_0) = Some False
   \<and> Contains_part001 (NewPolygon (rev adjacent_lat)) (NewPoint f_1 f_0) = Some True
   \<and> Contains_part001 (NewPolygon nan_triangle) (NewPoint f_5 f_1) = Some True
   \<and> Contains_part001 (NewPolygon (rev nan_triangle)) (NewPoint f_5 f_1) = Some False
   \<and> Contains_part001 (NewPolygon lng_adjacent) (NewPoint f_3 f_1) = Some True
   \<and> Contains_part001 (NewPolygon (rev lng_adjacent)) (NewPoint f_3 f_1) = Some False
   \<and> Contains_part001 (NewPolygon nan_lng_triangle) (NewPoint NaN f_3) = Some True
   \<and> Contains_part001 (NewPolygon (rev nan_lng_triangle)) (NewPoint NaN f_3) = Some False"
  by code_simp

text \<open>
  C5, amended: for every polygon in which no vertex latitude is NaN and no vertex
  latitude (longitude) is one unit in the last place above another vertex's latitude
  (longitude), and for every query point whose latitude is not NaN, \<open>Contains\<close> of
  src/unnamed/part_001 gives the same result on the reversed point list as on the
  original one.  The query may equal a vertex or share coordinates with vertices, and
  vertex coordinates may be \<open>+Inf\<close> (where a query coordinate \<open>+Inf\<close> meets one, the
  call returns in neither order).
\<close>

theorem C5_reversal_without_adjacent_coordinates:
  assumes nq: "\<not> IsNaN (lat point)"
    and nv: "\<forall>v \<in> set ps. \<not> IsNaN (lat v)"
    and adj: "\<forall>u \<in> set ps. \<forall>v \<in> set ps.
               \<not> one_ulp_above (lat u) (lat v) \<and> \<not> one_ulp_above (lng u) (lng v)"
  shows "Contains_part001 (NewPolygon (rev ps)) point = Contains_part001 (NewPolygon ps) point"
proof -
  have alat: "\<forall>c \<in> set (map lat ps). \<forall>d \<in> set (map lat ps). \<not> one_ulp_above c d"
    and alng: "\<forall>c \<in> set (map lng ps). \<forall>d \<in> set (map lng ps). \<not> one_ulp_above c d"
    using adj by auto
  have l: "nudge (lat point) (map lat (rev ps)) = nudge (lat point) (map lat ps)"
    using nudge_rev [OF alat, of "lat point"] by (simp add: rev_map)
  have g: "nudge (lng point) (map lng (rev ps)) = nudge (lng point) (map lng ps)"
    using nudge_rev [OF alng, of "lng point"] by (simp add: rev_map)
  have same: "perturb (rev ps) point = perturb ps point"
    unfolding perturb_nudge l g by (rule refl)
  show ?thesis
  proof (cases "perturb ps point")
    case None
    then show ?thesis
      using same by (simp add: Contains_part001_def NewPolygon_def IsClosed_def)
  next
    case (Some point')
    then obtain la where la: "nudge (lat point) (map lat ps) = Some la" and "lat point' = la"
      by (auto simp: perturb_nudge NewPoint_def split: option.splits)
    then have "\<not> IsNaN (lat point')" "\<forall>d \<in> set (map lat ps). \<not> feq (lat point') d"
      using nudge_off [OF alat la nq] by simp_all
    then have "edge_parity_part001 (rev ps) point' = edge_parity_part001 ps point'"
      using nv by (intro edge_parity_part001_rev) auto
    then show ?thesis
      using same Some by (simp add: Contains_part001_def NewPolygon_def IsClosed_def)
  qed
qed

theorem C5_reversal_without_adjacent_coordinates_witness:
  "\<not> IsNaN (lat (NewPoint f_2 f_2))
   \<and> list_all (\<lambda>v. \<not> IsNaN (lat v)) (points square)
   \<and> list_all (\<lambda>u. list_all (\<lambda>v. \<not> one_ulp_above (lat u) (lat v)
                                     \<and> \<not> one_ulp_above (lng u) (lng v)) (points square))
        (points square)
   \<and> Contains_part001 (NewPolygon (rev (points square))) (NewPoint f_2 f_2)
       = Contains_part001 (NewPolygon (points square)) (NewPoint f_2 f_2)
   \<and> Contains_part001 (NewPolygon (points square)) (NewPoint f_2 f_2) = Some False"
proof -
  have h1: "\<not> IsNaN (lat (NewPoint f_2 f_2))"
    by code_simp
  have h2: "\<forall>v \<in> set (points square). \<not> IsNaN (lat v)"
    by code_simp
  have h3: "\<forall>u \<in> set (points square). \<forall>v \<in> set (points square).
              \<not> one_ulp_above (lat u) (lat v) \<and> \<not> one_ulp_above (lng u) (lng v)"
    by code_simp
  have t: "Contains_part001 (NewPolygon (points square)) (NewPoint f_2 f_2) = Some False"
    by code_simp
  show ?thesis
    using C5_reversal_without_adjacent_coordinates [OF h1 h2 h3] h1 h2 h3 t by (simp add: list_all_iff)
qed

section \<open>The shared-longitude guard of src/polygon.go\<close>

text \<open>
  C7: in \<open>intersectsWithRaycast\<close> of src/polygon.go, once the edge is ordered by
  latitude and the query has been moved off the endpoints' latitudes, if the
  latitude-span and longitude-band checks do not decide and the query's longitude
  equals \<open>start\<close>'s, the result is false.  As a consequence \<open>Contains\<close> can report a
  point as not contained although it shares its longitude with such a start vertex and
  its latitude lies within the edge's span: for the triangle (0,1), (4,0), (4,2) and the
  interior point (3,1), both edges at the apex (0,1) hit the guard and \<open>Contains\<close> is
  false.
\<close>

theorem C7_shared_longitude_guard:
  "(order_edge a b = (start, endp) \<and> shift_off_edge point start endp = Some point'
      \<and> band_checks point' start endp = Fallthrough \<and> feq (lng point') (lng start)
    \<longrightarrow> intersectsWithRaycast point a b = Some False)
   \<and> Contains (NewPolygon apex_triangle) (NewPoint f_3 f_1) = Some False
   \<and> order_edge (apex_triangle ! 0) (apex_triangle ! 1) = (apex_triangle ! 0, apex_triangle ! 1)
   \<and> feq (lng (NewPoint f_3 f_1)) (lng (apex_triangle ! 0))
   \<and> flt (lat (apex_triangle ! 0)) (lat (NewPoint f_3 f_1))
   \<and> flt (lat (NewPoint f_3 f_1)) (lat (apex_triangle ! 1))"
proof -
  have general: "order_edge a b = (start, endp) \<and> shift_off_edge point start endp = Some point'
      \<and> band_checks point' start endp = Fallthrough \<and> feq (lng point') (lng start)
    \<longrightarrow> intersectsWithRaycast point a b = Some False"
    by (simp add: intersectsWithRaycast_def)
  have example: "Contains (NewPolygon apex_triangle) (NewPoint f_3 f_1) = Some False
   \<and> order_edge (apex_triangle ! 0) (apex_triangle ! 1) = (apex_triangle ! 0, apex_triangle ! 1)
   \<and> feq (lng (NewPoint f_3 f_1)) (lng (apex_triangle ! 0))
   \<and> flt (lat (apex_triangle ! 0)) (lat (NewPoint f_3 f_1))
   \<and> flt (lat (NewPoint f_3 f_1)) (lat (apex_triangle ! 1))"
    by code_simp
  show ?thesis using general example by simp
qed

theorem C7_shared_longitude_guard_witness:
  "order_edge (apex_triangle ! 0) (apex_triangle ! 1) = (apex_triangle ! 0, apex_triangle ! 1)
   \<and> shift_off_edge (NewPoint f_3 f_1) (apex_triangle ! 0) (apex_triangle ! 1)
       = Some (NewPoint f_3 f_1)
   \<and> band_checks (NewPoint f_3 f_1) (apex_triangle ! 0) (apex_triangle ! 1) = Fallthrough
   \<and> feq (lng (NewPoint f_3 f_1)) (lng (apex_triangle ! 0))
   \<and> intersectsWithRaycast (NewPoint f_3 f_1) (apex_triangle ! 0) (apex_triangle ! 1)
       = Some False"
proof -
  have h: "order_edge (apex_triangle ! 0) (apex_triangle ! 1)
             = (apex_triangle ! 0, apex_triangle ! 1)
   \<and> shift_off_edge (NewPoint f_3 f_1) (apex_triangle ! 0) (apex_triangle ! 1)
       = Some (NewPoint f_3 f_1)
   \<and> band_checks (NewPoint f_3 f_1) (apex_triangle ! 0) (apex_triangle ! 1) = Fallthrough
   \<and> feq (lng (NewPoint f_3 f_1)) (lng (apex_triangle ! 0))"
    by code_simp
  show ?thesis
    using C7_shared_longitude_guard
            [of "apex_triangle ! 0" "apex_triangle ! 1" "apex_triangle ! 0" "apex_triangle ! 1"
                "NewPoint f_3 f_1" "NewPoint f_3 f_1"] h
    by simp
qed

section \<open>Add\<close>

lemma slice_elems_length:
  "slice_ok m s \<Longrightarrow> length (slice_elems m s) = sl_len s"
  by (auto simp: slice_ok_def slice_elems_def)

lemma take_drop_update_end:
  assumes "k + n < length xs"
  shows "take (Suc n) (drop k (xs[k + n := x])) = take n (drop k xs) @ [x]"
proof -
  have "drop k (xs[k + n := x]) = (drop k xs)[n := x]"
    by (simp add: drop_update_swap)
  moreover have "n < length (drop k xs)" using assms by simp
  ultimately show ?thesis
    by (simp add: take_Suc_conv_app_nth)
qed

lemma take_drop_update_beyond:
  "take n (drop k (xs[k + n := x])) = take n (drop k xs)"
  by (simp add: drop_update_swap)

lemma go_append_result:
  assumes ok: "slice_ok m s" and ap: "go_append grow m s x = (m', s')"
  shows "slice_elems m' s' = slice_elems m s @ [x]"
    and "slice_elems m' s = slice_elems m s"
    and "slice_ok m' s'" and "slice_ok m' s"
    and "sl_len s = sl_cap s \<Longrightarrow> sl_array s' = fresh m \<and> fresh m' = fresh m + 1"
    and "\<And>t. sl_array t < fresh m \<Longrightarrow> sl_array t \<noteq> sl_array s \<Longrightarrow>
            slice_elems m' t = slice_elems m t"
proof -
  show "slice_elems m' s' = slice_elems m s @ [x]"
  proof (cases "sl_len s < sl_cap s")
    case True
    then have "sl_offset s + sl_len s < length (arrays m (sl_array s))"
      using ok by (simp add: slice_ok_def)
    then show ?thesis
      using True ap by (auto simp: go_append_def slice_elems_def take_drop_update_end)
  next
    case False
    then show ?thesis
      using ap slice_elems_length [OF ok] by (auto simp: go_append_def slice_elems_def)
  qed
  show "slice_elems m' s = slice_elems m s"
    using ok ap
    by (auto simp: go_append_def slice_elems_def slice_ok_def take_drop_update_beyond
             split: if_splits)
  show "slice_ok m' s'"
    using ok ap slice_elems_length [OF ok]
    by (auto simp: go_append_def slice_ok_def split: if_splits)
  show "slice_ok m' s"
    using ok ap by (auto simp: go_append_def slice_ok_def split: if_splits)
  show "sl_len s = sl_cap s \<Longrightarrow> sl_array s' = fresh m \<and> fresh m' = fresh m + 1"
    using ap by (auto simp: go_append_def split: if_splits)
  show "\<And>t. sl_array t < fresh m \<Longrightarrow> sl_array t \<noteq> sl_array s \<Longrightarrow>
            slice_elems m' t = slice_elems m t"
    using ap by (auto simp: go_append_def slice_elems_def split: if_splits)
qed

text \<open>
  C8, as stated: two Polygon values that diverged after an \<open>Add\<close> never observe each
  other's changes.  Three calls of \<open>Add\<close> on the zero Polygon leave a slice of length 3
  and capacity 4; two further calls of \<open>Add\<close> on that same receiver write into the same
  cell of the shared array, and the second call changes the last point of the first
  call's result.
\<close>

theorem C8_counterexample:
  "(case Add double_cap empty_memory zero_Polygon (NewPoint f_0 f_0) of (m1, p1) \<Rightarrow>
    case Add double_cap m1 p1 (NewPoint f_0 f_1) of (m2, p2) \<Rightarrow>
    case Add double_cap m2 p2 (NewPoint f_1 f_1) of (m3, p) \<Rightarrow>
    case Add double_cap m3 p (NewPoint f_2 f_2) of (m4, q1) \<Rightarrow>
    case Add double_cap m4 p (NewPoint f_3 f_3) of (m5, q2) \<Rightarrow>
      Points_mem m4 q1
        = [NewPoint f_0 f_0, NewPoint f_0 f_1, NewPoint f_1 f_1, NewPoint f_2 f_2]
      \<and> Points_mem m5 q1
        = [NewPoint f_0 f_0, NewPoint f_0 f_1, NewPoint f_1 f_1, NewPoint f_3 f_3])"
  by code_simp

text \<open>
  C8, amended: \<open>Add\<close> returns a Polygon whose points are the receiver's followed by the
  new point, and the receiver's own points are what they were before the call.  When
  the receiver's slice is full (length equal to capacity) the result lives in a new
  array, and a later \<open>Add\<close> on the receiver leaves the first result's points as they
  were.
\<close>

theorem C8_Add_appends_and_keeps_receiver:
  assumes ok: "slice_ok m (points_hdr p)" and add: "Add grow m p x = (m', q)"
  shows "Points_mem m' q = Points_mem m p @ [x]
       \<and> Points_mem m' p = Points_mem m p
       \<and> (sl_len (points_hdr p) = sl_cap (points_hdr p) \<longrightarrow>
            (\<forall>y m'' q'. Add grow m' p y = (m'', q') \<longrightarrow>
               Points_mem m'' q = Points_mem m p @ [x]
               \<and> Points_mem m'' q' = Points_mem m p @ [y]))"
proof -
  obtain s' where ap: "go_append grow m (points_hdr p) x = (m', s')" and q: "q = p\<lparr>points_hdr := s'\<rparr>"
    using add by (auto simp: Add_def split: prod.splits)
  note r = go_append_result [OF ok ap]
  have 1: "Points_mem m' q = Points_mem m p @ [x]"
    using r(1) q by (simp add: Points_mem_def)
  have 2: "Points_mem m' p = Points_mem m p"
    using r(2) by (simp add: Points_mem_def)
  have 3: "Points_mem m'' q = Points_mem m p @ [x] \<and> Points_mem m'' q' = Points_mem m p @ [y]"
    if full: "sl_len (points_hdr p) = sl_cap (points_hdr p)" and add2: "Add grow m' p y = (m'', q')"
    for y m'' q'
  proof -
    obtain s'' where ap2: "go_append grow m' (points_hdr p) y = (m'', s'')"
      and q': "q' = p\<lparr>points_hdr := s''\<rparr>"
      using add2 by (auto simp: Add_def split: prod.splits)
    note r2 = go_append_result [OF r(4) ap2]
    have "sl_array s' = fresh m" "fresh m' = fresh m + 1" using r(5) full by simp_all
    moreover have "sl_array (points_hdr p) < fresh m" using ok by (simp add: slice_ok_def)
    ultimately have "slice_elems m'' s' = slice_elems m' s'"
      by (intro r2(6)) simp_all
    then have "Points_mem m'' q = Points_mem m p @ [x]"
      using 1 q by (simp add: Points_mem_def)
    moreover have "Points_mem m'' q' = Points_mem m p @ [y]"
      using r2(1) q' 2 by (simp add: Points_mem_def)
    ultimately show ?thesis by simp
  qed
  show ?thesis using 1 2 3 by blast
qed

theorem C8_Add_appends_and_keeps_receiver_witness:
  "slice_ok empty_memory (points_hdr zero_Polygon)
   \<and> sl_len (points_hdr zero_Polygon) = sl_cap (points_hdr zero_Polygon)
   \<and> Points_mem (fst (Add double_cap empty_memory zero_Polygon (NewPoint f_1 f_2)))
        (snd (Add double_cap empty_memory zero_Polygon (NewPoint f_1 f_2)))
       = [NewPoint f_1 f_2]
   \<and> Points_mem (fst (Add double_cap empty_memory zero_Polygon (NewPoint f_1 f_2)))
        zero_Polygon = []
   \<and> Points_mem
        (fst (Add double_cap (fst (Add double_cap empty_memory zero_Polygon (NewPoint f_1 f_2)))
                zero_Polygon (NewPoint f_3 f_4)))
        (snd (Add double_cap empty_memory zero_Polygon (NewPoint f_1 f_2)))
       = [NewPoint f_1 f_2]"
proof -
  have h1: "slice_ok empty_memory (points_hdr zero_Polygon)"
    by (simp add: slice_ok_def empty_memory_def zero_Polygon_def)
  have h2: "sl_len (points_hdr zero_Polygon) = sl_cap (points_hdr zero_Polygon)"
    by (simp add: zero_Polygon_def)
  have h3: "Add double_cap empty_memory zero_Polygon (NewPoint f_1 f_2)
            = (fst (Add double_cap empty_memory zero_Polygon (NewPoint f_1 f_2)),
               snd (Add double_cap empty_memory zero_Polygon (NewPoint f_1 f_2)))"
    by simp
  have e: "Points_mem empty_memory zero_Polygon = []"
    by (simp add: Points_mem_def slice_elems_def zero_Polygon_def)
  show ?thesis
    using C8_Add_appends_and_keeps_receiver [OF h1 h3] h1 h2 e
    by (metis append_Nil prod.collapse)
qed

section \<open>The codecs\<close>

lemma byte_bit:
  "bit (push_bit k (ucast (ucast (drop_bit k v) :: 8 word) :: 64 word)) n
     = (k \<le> n \<and> n < k + 8 \<and> bit (v :: 64 word) n)"
  by (auto simp: bit_simps dest: bit_imp_le_length)

lemma byte0_bit:
  "bit (ucast (ucast v :: 8 word) :: 64 word) n = (n < 8 \<and> bit (v :: 64 word) n)"
  by (auto simp: bit_simps)

lemma Uint64_PutUint64: "Uint64 (PutUint64 v) = v"
proof (rule bit_word_eqI)
  fix n assume "n < LENGTH(64)"
  then have n: "n < 64" by simp
  then consider "n < 8" | "8 \<le> n \<and> n < 16" | "16 \<le> n \<and> n < 24" | "24 \<le> n \<and> n < 32"
    | "32 \<le> n \<and> n < 40" | "40 \<le> n \<and> n < 48" | "48 \<le> n \<and> n < 56" | "56 \<le> n \<and> n < 64"
    by linarith
  then show "bit (Uint64 (PutUint64 v)) n = bit v n"
    by cases (simp_all add: Uint64_def PutUint64_def bit_or_iff byte_bit byte0_bit)
qed

lemma length_PutUint64: "length (PutUint64 v) = 8"
  by (simp add: PutUint64_def)

lemma PutUint64_not_Nil: "PutUint64 v \<noteq> []"
  by (simp add: PutUint64_def)

lemma MarshalBinary_example:
  "MarshalBinary (NewPoint f_1 f_2)
     = Inr [0, 0, 0, 0, 0, 0, 0xF0, 0x3F, 0, 0, 0, 0, 0, 0, 0, 0x40]"
  by code_simp

text \<open>
  C9: for every Point, \<open>MarshalBinary\<close> succeeds with exactly 16 bytes, the
  little-endian bytes of \<open>lat\<close> followed by those of \<open>lng\<close>, and \<open>UnmarshalBinary\<close> on
  these bytes succeeds and sets the receiver's \<open>lat\<close> and \<open>lng\<close> to the original bits.
\<close>

theorem C9_binary_round_trip:
  "MarshalBinary p = Inr (PutUint64 (lat p) @ PutUint64 (lng p))
   \<and> length (PutUint64 (lat p) @ PutUint64 (lng p)) = 16
   \<and> UnmarshalBinary q (PutUint64 (lat p) @ PutUint64 (lng p))
       = (None, q\<lparr>lat := lat p, lng := lng p\<rparr>)
   \<and> q\<lparr>lat := lat p, lng := lng p\<rparr> = p"
  by (simp add: MarshalBinary_def UnmarshalBinary_def binary_Write_def binary_Read_def
        length_PutUint64 PutUint64_not_Nil Uint64_PutUint64)

text \<open>
  C10, as stated: \<open>UnmarshalJSON\<close> returns an error for every JSON object that lacks
  \<open>lat\<close> or \<open>lng\<close>.  The text \<open>{"lng":2}\<close> decodes into a map without the key \<open>lat\<close>;
  \<open>UnmarshalJSON\<close> returns no error and sets the receiver to (0, 2).
\<close>

theorem C10_counterexample:
  "lng_only_decoder lng_only_text = Inr [''lng'' \<mapsto> f_2]
   \<and> UnmarshalJSON lng_only_decoder (NewPoint f_1 f_1) lng_only_text = (None, NewPoint 0 f_2)"
  by (simp add: UnmarshalJSON_def lng_only_decoder_def map_index_def)

text \<open>
  C10, amended: \<open>UnmarshalJSON\<close> returns an error exactly when the JSON decoder fails
  on the text, and then leaves the receiver unchanged; when the text decodes, a missing
  \<open>lat\<close> or \<open>lng\<close> is read as 0 without an error.  \<open>UnmarshalBinary\<close> returns an error
  for every input shorter than 16 bytes and leaves the receiver unchanged.
\<close>

theorem C10_decode_errors:
  "(fst (UnmarshalJSON decode p data) = None) = (\<exists>values. decode data = Inr values)
   \<and> (decode data = Inl err \<longrightarrow> UnmarshalJSON decode p data = (Some err, p))
   \<and> (decode data = Inr values \<longrightarrow>
        UnmarshalJSON decode p data
          = (None, NewPoint (map_index values ''lat'') (map_index values ''lng'')))
   \<and> (values k = None \<longrightarrow> map_index values k = 0)
   \<and> (length bytes < 16 \<longrightarrow> (\<exists>e. UnmarshalBinary p bytes = (Some e, p)))"
proof -
  have json: "(fst (UnmarshalJSON decode p data) = None) = (\<exists>values. decode data = Inr values)"
    by (cases "decode data") (simp_all add: UnmarshalJSON_def)
  have bin: "\<exists>e. UnmarshalBinary p bytes = (Some e, p)" if "length bytes < 16"
  proof (cases "binary_Read bytes")
    case (Inl e)
    then show ?thesis by (simp add: UnmarshalBinary_def)
  next
    case (Inr r)
    then have "8 \<le> length bytes" and r: "r = (Uint64 (take 8 bytes), drop 8 bytes)"
      by (auto simp: binary_Read_def split: if_splits)
    then have "length (drop 8 bytes) < 8" using that by simp
    then have "\<exists>e. binary_Read (drop 8 bytes) = Inl e"
      by (simp add: binary_Read_def)
    then show ?thesis using Inr r by (auto simp: UnmarshalBinary_def)
  qed
  show ?thesis
    using json bin by (auto simp: UnmarshalJSON_def map_index_def)
qed

theorem C10_decode_errors_witness:
  "lng_only_decoder [] = Inl (SyntaxError ''unexpected text'')
   \<and> UnmarshalJSON lng_only_decoder (NewPoint f_1 f_1) []
       = (Some (SyntaxError ''unexpected text''), NewPoint f_1 f_1)
   \<and> lng_only_decoder lng_only_text = Inr [''lng'' \<mapsto> f_2]
   \<and> [''lng'' \<mapsto> f_2] ''lat'' = None
   \<and> UnmarshalJSON lng_only_decoder (NewPoint f_1 f_1) lng_only_text
       = (None, NewPoint (map_index [''lng'' \<mapsto> f_2] ''lat'') (map_index [''lng'' \<mapsto> f_2] ''lng''))
   \<and> map_index [''lng'' \<mapsto> f_2] ''lat'' = 0
   \<and> length lng_only_text < 16
   \<and> (\<exists>e. UnmarshalBinary (NewPoint f_1 f_1) lng_only_text = (Some e, NewPoint f_1 f_1))"
proof -
  have h1: "lng_only_decoder [] = Inl (SyntaxError ''unexpected text'')"
    by (simp add: lng_only_decoder_def lng_only_text_def)
  have h2: "lng_only_decoder lng_only_text = Inr [''lng'' \<mapsto> f_2]"
    by (simp add: lng_only_decoder_def)
  have h3: "[''lng'' \<mapsto> f_2] ''lat'' = None"
    by simp
  have h4: "length lng_only_text < 16"
    by (simp add: lng_only_text_def)
  show ?thesis
    using C10_decode_errors [of lng_only_decoder "NewPoint f_1 f_1" "[]"
            "SyntaxError ''unexpected text''" "[''lng'' \<mapsto> f_2]" "''lat''" lng_only_text]
          C10_decode_errors [of lng_only_decoder "NewPoint f_1 f_1" lng_only_text
            "SyntaxError ''unexpected text''" "[''lng'' \<mapsto> f_2]" "''lat''" lng_only_text]
          h1 h2 h3 h4
    by simp
qed

end
